theory Spec2Isabelle
  imports Main "HOL-Library.Multiset"
begin

section \<open>Values, strings and errors\<close>

text \<open>
  The program is \<^verbatim>\<open>src/seller.py\<close>. A Python \<^verbatim>\<open>str\<close> is a \<^typ>\<open>string\<close>; a code point
  beyond ASCII stands as its UTF-8 bytes, none of which is a period, a digit, a sign, an
  underscore or an ASCII blank, so equality, \<^verbatim>\<open>split(".")\<close> and the class \<^verbatim>\<open>[^0-9]\<close> act on
  the bytes as they act on the code points.

  A cell of a vendor row is whatever the spreadsheet reader produced. The functions below
  observe a cell only through \<^verbatim>\<open>str(x)\<close>, \<^verbatim>\<open>int(x)\<close> and \<^verbatim>\<open>x.split\<close>:
  \<^item> \<open>PyNone\<close> is \<^verbatim>\<open>None\<close>, which \<^verbatim>\<open>dict.get\<close> also returns for a missing key;
  \<^item> \<open>PyInt\<close> and \<open>PyStr\<close> are \<^verbatim>\<open>int\<close> and \<^verbatim>\<open>str\<close> objects; an \<^verbatim>\<open>int\<close> of a cell is a
    spreadsheet number, of a few hundred digits at most, so that \<^verbatim>\<open>str\<close> on it stays
    below the interpreter's limit of 4300 digits for one conversion;
  \<^item> \<open>PyOther s r\<close> is any other object (a float, a bool, a timestamp), given by the text
    \<open>s\<close> that \<^verbatim>\<open>str\<close> returns on it and the outcome \<open>r\<close> of \<^verbatim>\<open>int\<close> on it; it has no
    \<^verbatim>\<open>split\<close> attribute.
\<close>

datatype error = ValueError | TypeError | AttributeError | IndexError | HTTPError

datatype pyval = PyNone | PyInt int | PyStr string | PyOther string "error + int"

definition is_digit :: "char \<Rightarrow> bool" where
  "is_digit c = (c \<in> set ''0123456789'')"

definition digit_val :: "char \<Rightarrow> nat" where
  "digit_val c = of_char c - 48"

definition digit_char :: "nat \<Rightarrow> char" where
  "digit_char d = char_of (48 + d)"

fun str_nat :: "nat \<Rightarrow> string" where
  "str_nat n = (if n < 10 then [digit_char n] else str_nat (n div 10) @ [digit_char (n mod 10)])"

declare str_nat.simps [simp del]

definition str_int :: "int \<Rightarrow> string" where
  "str_int i = (if i < 0 then CHR ''-'' # str_nat (nat (- i)) else str_nat (nat i))"

text \<open>\<^verbatim>\<open>str(x)\<close>.\<close>

fun py_str :: "pyval \<Rightarrow> string" where
  "py_str PyNone = ''None''"
| "py_str (PyInt i) = str_int i"
| "py_str (PyStr s) = s"
| "py_str (PyOther s r) = s"

text \<open>
  \<^verbatim>\<open>int(s)\<close> on a string, base ten, as CPython 3.11 computes it, in two steps.

  First the text is brought to ASCII: a text that is all ASCII stays as it is; in any
  other text each code point below 127 stays, a Unicode blank becomes a space, a Unicode
  decimal digit becomes its ASCII digit, and every other code point becomes a question
  mark. The code points are read off the UTF-8 bytes, and bytes that are the UTF-8 text
  of no \<^verbatim>\<open>str\<close> give \<open>None\<close>. (CPython also cuts the text behind the first question
  mark, which changes no outcome: no integer is written with a question mark.) The blanks
  and the decimal digits are those of Unicode 14.0; the digits come in runs of ten, each
  run given by the code point of its zero.

  Then the ASCII text is scanned from left to right: blanks, one optional sign, decimal
  digits with single underscores between them, blanks, and the end of the text. A text
  of more than 4300 digits, the default of \<^verbatim>\<open>sys.int_max_str_digits\<close>, is refused. Every
  failure is a \<^verbatim>\<open>ValueError\<close>.
\<close>

definition unicode_space :: "nat \<Rightarrow> bool" where
  "unicode_space cp =
     (cp \<in> set [0x09, 0x0A, 0x0B, 0x0C, 0x0D, 0x1C, 0x1D, 0x1E, 0x1F, 0x20, 0x85, 0xA0,
                 0x1680, 0x2028, 0x2029, 0x202F, 0x205F, 0x3000]
      \<or> (0x2000 \<le> cp \<and> cp \<le> 0x200A))"

definition decimal_zeros :: "nat list" where
  "decimal_zeros =
     [0x30, 0x660, 0x6F0, 0x7C0, 0x966, 0x9E6, 0xA66, 0xAE6, 0xB66, 0xBE6, 0xC66, 0xCE6,
      0xD66, 0xDE6, 0xE50, 0xED0, 0xF20, 0x1040, 0x1090, 0x17E0, 0x1810, 0x1946, 0x19D0,
      0x1A80, 0x1A90, 0x1B50, 0x1BB0, 0x1C40, 0x1C50, 0xA620, 0xA8D0, 0xA900, 0xA9D0,
      0xA9F0, 0xAA50, 0xABF0, 0xFF10, 0x104A0, 0x10D30, 0x11066, 0x110F0, 0x11136,
      0x111D0, 0x112F0, 0x11450, 0x114D0, 0x11650, 0x116C0, 0x11730, 0x118E0, 0x11950,
      0x11C50, 0x11D50, 0x11DA0, 0x16A60, 0x16AC0, 0x16B50, 0x1D7CE, 0x1D7D8, 0x1D7E2,
      0x1D7EC, 0x1D7F6, 0x1E140, 0x1E2F0, 0x1E950, 0x1FBF0]"

definition unicode_decimal :: "nat \<Rightarrow> nat option" where
  "unicode_decimal cp =
     map_option (\<lambda>z. cp - z) (find (\<lambda>z. z \<le> cp \<and> cp < z + 10) decimal_zeros)"

text \<open>The ASCII character that stands for a code point from 128 on.\<close>

definition wide_to_ascii :: "nat \<Rightarrow> char" where
  "wide_to_ascii cp =
     (if unicode_space cp then CHR '' ''
      else (case unicode_decimal cp of
              Some d \<Rightarrow> ''0123456789'' ! d
            | None \<Rightarrow> CHR ''?''))"

definition continuation :: "nat \<Rightarrow> bool" where
  "continuation b = (0x80 \<le> b \<and> b < 0xC0)"

text \<open>
  The first step on a text that is not all ASCII: one code point after the other is read
  off its one to four bytes and replaced.
\<close>

fun transform_points :: "string \<Rightarrow> string option" where
  "transform_points [] = Some []"
| "transform_points (c # cs) =
     (let b = (of_char c :: nat) in
      if b < 0x80 then
        map_option ((#) (if b < 127 then c else CHR ''?'')) (transform_points cs)
      else if b < 0xE0 then
        (case cs of
           c1 # r \<Rightarrow>
             (let b1 = (of_char c1 :: nat);
                  cp = (b - 0xC0) * 0x40 + (b1 - 0x80) in
              if 0xC0 \<le> b \<and> continuation b1 \<and> 0x80 \<le> cp
              then map_option ((#) (wide_to_ascii cp)) (transform_points r) else None)
         | _ \<Rightarrow> None)
      else if b < 0xF0 then
        (case cs of
           c1 # c2 # r \<Rightarrow>
             (let b1 = (of_char c1 :: nat); b2 = (of_char c2 :: nat);
                  cp = (b - 0xE0) * 0x1000 + (b1 - 0x80) * 0x40 + (b2 - 0x80) in
              if continuation b1 \<and> continuation b2 \<and> 0x800 \<le> cp
              then map_option ((#) (wide_to_ascii cp)) (transform_points r) else None)
         | _ \<Rightarrow> None)
      else
        (case cs of
           c1 # c2 # c3 # r \<Rightarrow>
             (let b1 = (of_char c1 :: nat); b2 = (of_char c2 :: nat);
                  b3 = (of_char c3 :: nat);
                  cp = (b - 0xF0) * 0x40000 + (b1 - 0x80) * 0x1000 + (b2 - 0x80) * 0x40
                        + (b3 - 0x80) in
              if b < 0xF8 \<and> continuation b1 \<and> continuation b2 \<and> continuation b3
                 \<and> 0x10000 \<le> cp \<and> cp \<le> 0x10FFFF
              then map_option ((#) (wide_to_ascii cp)) (transform_points r) else None)
         | _ \<Rightarrow> None))"

definition transform_decimal_and_space :: "string \<Rightarrow> string option" where
  "transform_decimal_and_space s =
     (if list_all (\<lambda>c. of_char c < (128 :: nat)) s then Some s
      else transform_points s)"

text \<open>The blanks of the second step: space, tab, line feed, vertical tab, form feed, return.\<close>

definition is_space :: "char \<Rightarrow> bool" where
  "is_space c = (c \<in> set [CHR '' '', CHR 0x09, CHR 0x0A, CHR 0x0B, CHR 0x0C, CHR 0x0D])"

text \<open>
  The scan over digits and underscores. It carries whether the character before was an
  underscore, the value of the digits read and their number, and hands back the rest of
  the text. Two underscores in a row, or an underscore at the end, fail.
\<close>

fun scan_digits :: "bool \<Rightarrow> nat \<Rightarrow> nat \<Rightarrow> string \<Rightarrow> (nat \<times> nat \<times> string) option" where
  "scan_digits prev_under val digits [] =
     (if prev_under then None else Some (val, digits, []))"
| "scan_digits prev_under val digits (c # cs) =
     (if is_digit c then scan_digits False (10 * val + digit_val c) (Suc digits) cs
      else if c = CHR ''_'' then
        (if prev_under then None else scan_digits True val digits cs)
      else if prev_under then None
      else Some (val, digits, c # cs))"

definition max_str_digits :: nat where
  "max_str_digits = 4300"

text \<open>
  The text behind the sign: it may not start with an underscore, has at least one digit
  and at most \<open>max_str_digits\<close>, and only blanks may follow the digits.
\<close>

definition digits_part :: "bool \<Rightarrow> string \<Rightarrow> int option" where
  "digits_part neg s =
     (case s of
        [] \<Rightarrow> None
      | c # r \<Rightarrow>
          if c = CHR ''_'' then None
          else (case scan_digits False 0 0 s of
                  None \<Rightarrow> None
                | Some (val, digits, rest) \<Rightarrow>
                    if digits = 0 \<or> max_str_digits < digits then None
                    else if dropWhile is_space rest \<noteq> [] then None
                    else Some (if neg then - int val else int val)))"

definition long_from_string :: "string \<Rightarrow> int option" where
  "long_from_string s =
     (case dropWhile is_space s of
        [] \<Rightarrow> None
      | c # r \<Rightarrow>
          if c = CHR ''-'' then digits_part True r
          else if c = CHR ''+'' then digits_part False r
          else digits_part False (c # r))"

definition int_of_str :: "string \<Rightarrow> error + int" where
  "int_of_str s =
     (case transform_decimal_and_space s of
        None \<Rightarrow> Inl ValueError
      | Some t \<Rightarrow>
          (case long_from_string t of
             None \<Rightarrow> Inl ValueError
           | Some i \<Rightarrow> Inr i))"

text \<open>\<^verbatim>\<open>int(x)\<close>.\<close>

fun py_int :: "pyval \<Rightarrow> error + int" where
  "py_int PyNone = Inl TypeError"
| "py_int (PyInt i) = Inr i"
| "py_int (PyStr s) = int_of_str s"
| "py_int (PyOther s r) = r"

section \<open>Vendor rows and the records built from them\<close>

text \<open>
  A vendor row is a dict of the spreadsheet's columns; the program reads three of them with
  \<^verbatim>\<open>watch.get\<close>: the code (\<open>Kod\<close>), the quantity (\<open>Kolichestvo\<close>) and the price
  (\<open>Tsena\<close>), named here by the transliteration of their Cyrillic keys.
\<close>

record watch =
  Kod :: pyval
  Kolichestvo :: pyval
  Tsena :: pyval

text \<open>The dict \<^verbatim>\<open>{"offer_id": ..., "stock": ...}\<close>.\<close>

record stock_item =
  offer_id :: string
  stock :: int

text \<open>
  The dict of five entries built by \<^verbatim>\<open>create_prices\<close>; its \<^verbatim>\<open>"offer_id"\<close> entry is the
  field \<open>price_offer_id\<close>.
\<close>

record price_item =
  auto_action_enabled :: string
  currency_code :: string
  price_offer_id :: string
  old_price :: string
  price :: string

section \<open>create\_stocks\<close>

text \<open>
  The first loop of \<^verbatim>\<open>create_stocks\<close>, over the vendor rows. It carries the list
  \<^verbatim>\<open>offer_ids\<close>, which \<^verbatim>\<open>offer_ids.remove\<close> changes in place, and the list \<^verbatim>\<open>stocks\<close>.
  The result is the outcome together with \<^verbatim>\<open>offer_ids\<close> as the loop leaves it: that list
  is the caller's object. \<^verbatim>\<open>remove\<close> deletes the first occurrence, and is only called on
  a member.
\<close>

fun create_stocks_rows ::
  "watch list \<Rightarrow> string list \<Rightarrow> stock_item list \<Rightarrow> (error + stock_item list) \<times> string list" where
  "create_stocks_rows [] offer_ids stocks = (Inr stocks, offer_ids)"
| "create_stocks_rows (w # ws) offer_ids stocks =
     (if py_str (Kod w) \<in> set offer_ids then
        (let count = py_str (Kolichestvo w) in
         case (if count = ''>10'' then Inr 100
               else if count = ''1'' then Inr 0
               else py_int (Kolichestvo w)) of
           Inl e \<Rightarrow> (Inl e, offer_ids)
         | Inr st \<Rightarrow>
             create_stocks_rows ws (remove1 (py_str (Kod w)) offer_ids)
               (stocks @ [\<lparr>offer_id = py_str (Kod w), stock = st\<rparr>]))
      else create_stocks_rows ws offer_ids stocks)"

text \<open>
  \<^verbatim>\<open>create_stocks(watch_remnants, offer_ids)\<close>: the first loop, then one record of stock 0
  for each id left in \<^verbatim>\<open>offer_ids\<close>. The second component is the caller's list after the
  call.
\<close>

definition create_stocks ::
  "watch list \<Rightarrow> string list \<Rightarrow> (error + stock_item list) \<times> string list" where
  "create_stocks watch_remnants offer_ids =
     (case create_stocks_rows watch_remnants offer_ids [] of
        (Inl e, ids) \<Rightarrow> (Inl e, ids)
      | (Inr stocks, ids) \<Rightarrow>
          (Inr (stocks @ map (\<lambda>i. \<lparr>offer_id = i, stock = 0\<rparr>) ids), ids))"

section \<open>price\_conversion and create\_prices\<close>

text \<open>\<^verbatim>\<open>s.split(sep)\<close> for a separator of one character: the pieces between its occurrences.\<close>

fun split_char :: "char \<Rightarrow> string \<Rightarrow> string list" where
  "split_char sep [] = [ [] ]"
| "split_char sep (c # cs) =
     (if c = sep then [] # split_char sep cs
      else (case split_char sep cs of
              [] \<Rightarrow> [ [c] ]
            | p # ps \<Rightarrow> (c # p) # ps))"

text \<open>\<^verbatim>\<open>xs[0]\<close>, an \<^verbatim>\<open>IndexError\<close> on the empty list.\<close>

definition first_item :: "'a list \<Rightarrow> error + 'a" where
  "first_item xs = (case xs of [] \<Rightarrow> Inl IndexError | x # _ \<Rightarrow> Inr x)"

text \<open>\<^verbatim>\<open>re.sub("[^0-9]", "", s)\<close>: every character outside the class of 0 to 9 is deleted.\<close>

definition sub_non_digits :: "string \<Rightarrow> string" where
  "sub_non_digits s = filter is_digit s"

text \<open>
  \<^verbatim>\<open>price_conversion(price)\<close>. Only a \<^verbatim>\<open>str\<close> has the method \<^verbatim>\<open>split\<close>; on any other
  object the call raises \<^verbatim>\<open>AttributeError\<close>.
\<close>

fun price_conversion :: "pyval \<Rightarrow> error + string" where
  "price_conversion (PyStr s) =
     (case first_item (split_char CHR ''.'' s) of
        Inl e \<Rightarrow> Inl e
      | Inr p \<Rightarrow> Inr (sub_non_digits p))"
| "price_conversion PyNone = Inl AttributeError"
| "price_conversion (PyInt i) = Inl AttributeError"
| "price_conversion (PyOther s r) = Inl AttributeError"

text \<open>
  The loop of \<^verbatim>\<open>create_prices\<close>, with the list \<^verbatim>\<open>prices\<close> built so far. It reads
  \<^verbatim>\<open>offer_ids\<close> and never changes it.
\<close>

fun create_prices_rows ::
  "watch list \<Rightarrow> string list \<Rightarrow> price_item list \<Rightarrow> error + price_item list" where
  "create_prices_rows [] offer_ids prices = Inr prices"
| "create_prices_rows (w # ws) offer_ids prices =
     (if py_str (Kod w) \<in> set offer_ids then
        (case price_conversion (Tsena w) of
           Inl e \<Rightarrow> Inl e
         | Inr p \<Rightarrow>
             create_prices_rows ws offer_ids
               (prices @ [\<lparr>auto_action_enabled = ''UNKNOWN'', currency_code = ''RUB'',
                           price_offer_id = py_str (Kod w), old_price = ''0'', price = p\<rparr>]))
      else create_prices_rows ws offer_ids prices)"

definition create_prices :: "watch list \<Rightarrow> string list \<Rightarrow> error + price_item list" where
  "create_prices watch_remnants offer_ids = create_prices_rows watch_remnants offer_ids []"

section \<open>divide\<close>

text \<open>
  \<^verbatim>\<open>range(start, stop, step)\<close>: a \<^verbatim>\<open>ValueError\<close> for step 0, else the values from
  \<^verbatim>\<open>start\<close> in steps of \<^verbatim>\<open>step\<close> that lie before \<^verbatim>\<open>stop\<close>.
\<close>

function range_from :: "int \<Rightarrow> int \<Rightarrow> int \<Rightarrow> int list" where
  "range_from i stop step =
     (if (0 < step \<and> i < stop) \<or> (step < 0 \<and> stop < i)
      then i # range_from (i + step) stop step
      else [])"
  by pat_completeness auto
termination
  by (relation "measure (\<lambda>(i, stop, step). nat (if 0 < step then stop - i else i - stop))") auto

declare range_from.simps [simp del]

definition py_range :: "int \<Rightarrow> int \<Rightarrow> int \<Rightarrow> error + int list" where
  "py_range start stop step =
     (if step = 0 then Inl ValueError else Inr (range_from start stop step))"

text \<open>
  The slice \<^verbatim>\<open>xs[lo:hi]\<close>: a negative bound counts from the end, and each bound is
  clamped to the list.
\<close>

definition slice_bound :: "nat \<Rightarrow> int \<Rightarrow> nat" where
  "slice_bound len i = (if i < 0 then nat (max 0 (int len + i)) else min len (nat i))"

definition py_slice :: "'a list \<Rightarrow> int \<Rightarrow> int \<Rightarrow> 'a list" where
  "py_slice xs lo hi =
     (let l = slice_bound (length xs) lo; h = slice_bound (length xs) hi
      in take (h - l) (drop l xs))"

text \<open>
  \<^verbatim>\<open>divide(lst, n)\<close> is a generator; every caller consumes it at once with \<^verbatim>\<open>list(...)\<close>.
  The model is that list of batches, or the error that the iteration raises.
\<close>

definition divide :: "'a list \<Rightarrow> int \<Rightarrow> error + 'a list list" where
  "divide lst n =
     (case py_range 0 (int (length lst)) n of
        Inl e \<Rightarrow> Inl e
      | Inr rng \<Rightarrow> Inr (map (\<lambda>i. py_slice lst i (i + n)) rng))"

section \<open>get\_offer\_ids\<close>

text \<open>
  A product of the listing is read through \<^verbatim>\<open>product.get("offer_id")\<close> only (the field
  \<open>item_offer_id\<close>). A page is the \<^verbatim>\<open>"result"\<close> object of one reply, with its \<^verbatim>\<open>"items"\<close>,
  \<^verbatim>\<open>"total"\<close> (the field \<open>total_n\<close>) and \<^verbatim>\<open>"last_id"\<close>.
\<close>

record product =
  item_offer_id :: string

record page =
  items :: "product list"
  total_n :: int
  last_id :: string

text \<open>
  The marketplace is the sequence of its replies: the \<open>k\<close>-th call of
  \<^verbatim>\<open>get_product_list\<close> returns \<open>replies k\<close>, whatever cursor the call sends; a reply
  is a page or the error (an \<^verbatim>\<open>HTTPError\<close>, say) that \<^verbatim>\<open>raise_for_status\<close> raises.
  The loop \<^verbatim>\<open>while True\<close> may run forever, which is the value \<open>None\<close>.
\<close>

partial_function (option) get_offer_ids_loop ::
  "(nat \<Rightarrow> error + page) \<Rightarrow> nat \<Rightarrow> string \<Rightarrow> product list \<Rightarrow> (error + product list) option" where
  "get_offer_ids_loop replies k cursor product_list =
     (case replies k of
        Inl e \<Rightarrow> Some (Inl e)
      | Inr some_prod \<Rightarrow>
          (let product_list' = product_list @ items some_prod in
           if total_n some_prod = int (length product_list') then Some (Inr product_list')
           else get_offer_ids_loop replies (Suc k) (last_id some_prod) product_list'))"

definition get_offer_ids :: "(nat \<Rightarrow> error + page) \<Rightarrow> (error + string list) option" where
  "get_offer_ids replies =
     (case get_offer_ids_loop replies 0 [] [] of
        None \<Rightarrow> None
      | Some (Inl e) \<Rightarrow> Some (Inl e)
      | Some (Inr product_list) \<Rightarrow> Some (Inr (map item_offer_id product_list)))"

section \<open>The reconciliation steps of main\<close>

text \<open>
  \<^verbatim>\<open>main\<close> calls \<^verbatim>\<open>create_stocks\<close> and then \<^verbatim>\<open>create_prices\<close> on the same list object
  \<^verbatim>\<open>offer_ids\<close>, so the second call sees the list as the first one left it. An error of
  the first call ends the run before the second. The uploads between the two calls do not
  touch \<^verbatim>\<open>offer_ids\<close>.
\<close>

definition main_records ::
  "watch list \<Rightarrow> string list \<Rightarrow> error + stock_item list \<times> price_item list" where
  "main_records watch_remnants offer_ids =
     (case create_stocks watch_remnants offer_ids of
        (Inl e, ids) \<Rightarrow> Inl e
      | (Inr stocks, ids) \<Rightarrow>
          (case create_prices watch_remnants ids of
             Inl e \<Rightarrow> Inl e
           | Inr prices \<Rightarrow> Inr (stocks, prices)))"

section \<open>Reference functions of the specification\<close>

text \<open>
  The price normalizer as the specification words it: the decimal digits of the text
  before the first period.
\<close>

definition digits_before_period :: "string \<Rightarrow> string" where
  "digits_before_period s = filter is_digit (takeWhile (\<lambda>c. c \<noteq> CHR ''.'') s)"

text \<open>
  The integer that a text denotes, as the language reference words it for \<^verbatim>\<open>int\<close>: the
  text is surrounded by blanks, may start with one sign, and is otherwise made of groups
  of decimal digits with single underscores between the groups; its value is the decimal
  value of the digits, with the sign. Blanks and digits are read after the text has been
  brought to ASCII.
\<close>

definition strip :: "string \<Rightarrow> string" where
  "strip s = rev (dropWhile is_space (rev (dropWhile is_space s)))"

definition decimal_value :: "string \<Rightarrow> nat" where
  "decimal_value ds = foldl (\<lambda>a c. 10 * a + digit_val c) 0 ds"

definition groups_literal :: "bool \<Rightarrow> string \<Rightarrow> int option" where
  "groups_literal neg body =
     (let groups = split_char CHR ''_'' body
      in if list_all (\<lambda>g. g \<noteq> [] \<and> list_all is_digit g) groups
            \<and> length (concat groups) \<le> max_str_digits
         then Some (if neg then - int (decimal_value (concat groups))
                    else int (decimal_value (concat groups)))
         else None)"

definition decimal_literal :: "string \<Rightarrow> int option" where
  "decimal_literal t =
     (let core = strip t
      in if take 1 core = ''-'' then groups_literal True (drop 1 core)
         else if take 1 core = ''+'' then groups_literal False (drop 1 core)
         else groups_literal False core)"

definition int_literal :: "string \<Rightarrow> int option" where
  "int_literal s =
     (case transform_decimal_and_space s of
        None \<Rightarrow> None
      | Some t \<Rightarrow> decimal_literal t)"

text \<open>
  The batch splitter as the specification words it: contiguous runs of \<open>m\<close> elements,
  the last one possibly shorter.
\<close>

function chunks :: "nat \<Rightarrow> 'a list \<Rightarrow> 'a list list" where
  "chunks m xs = (if m = 0 \<or> xs = [] then [] else take m xs # chunks m (drop m xs))"
  by pat_completeness auto
termination
  by (relation "measure (\<lambda>(m, xs). length xs)") auto

declare chunks.simps [simp del]

text \<open>
  The paging of the specification: the products accumulated after the replies \<open>0\<close> to
  \<open>k\<close>, and the test that stops the loop at reply \<open>k\<close>.
\<close>

definition accumulated :: "(nat \<Rightarrow> page) \<Rightarrow> nat \<Rightarrow> product list" where
  "accumulated pages k = concat (map (\<lambda>j. items (pages j)) [0..<Suc k])"

definition reached :: "(nat \<Rightarrow> page) \<Rightarrow> nat \<Rightarrow> bool" where
  "reached pages k = (total_n (pages k) = int (length (accumulated pages k)))"

section \<open>The price normalizer\<close>

lemma first_item_split_char:
  "first_item (split_char sep s) = Inr (takeWhile (\<lambda>c. c \<noteq> sep) s)"
  by (induction s) (auto simp: first_item_def split: list.splits)

lemma price_conversion_str:
  "price_conversion (PyStr s) = Inr (digits_before_period s)"
  by (simp add: first_item_split_char digits_before_period_def sub_non_digits_def)

text \<open>
  Claim C7. On every string, \<open>price_conversion\<close> returns the decimal digits of the text
  before the first period, every other character removed, and it never raises; a string
  without a period is scanned whole. Its values on the three prices of the specification
  are \<open>5990\<close>, \<open>1234\<close> and \<open>100\<close>.
\<close>

theorem price_conversion_contract:
  "price_conversion (PyStr s) = Inr (digits_before_period s)
   \<and> price_conversion (PyStr ''5'990.00'') = Inr ''5990''
   \<and> price_conversion (PyStr ''1,234.56'') = Inr ''1234''
   \<and> price_conversion (PyStr ''100'') = Inr ''100''"
  by (simp add: price_conversion_str digits_before_period_def is_digit_def
        del: price_conversion.simps)

section \<open>The batch splitter\<close>

lemma range_from_nonpos: "n < 0 \<Longrightarrow> 0 \<le> stop \<Longrightarrow> range_from 0 stop n = []"
  by (subst range_from.simps) simp

text \<open>
  Claim C3, as stated, fails: with the negative batch size \<open>- 1\<close> the iteration of
  \<open>divide\<close> over a list of three elements raises nothing and yields no batch.
\<close>

theorem divide_negative_counterexample:
  "(- 1 :: int) \<le> 0 \<and> divide [1, 2, 3 :: int] (- 1) = Inr []"
  by (simp add: divide_def py_range_def range_from_nonpos)

text \<open>
  Claim C3, amended. For a batch size \<open>n \<le> 0\<close>: iterating \<open>divide lst n\<close> raises
  \<^verbatim>\<open>ValueError\<close> when \<open>n = 0\<close>; when \<open>n < 0\<close> it raises nothing and yields no batch at
  all, whatever the list.
\<close>

theorem divide_nonpositive:
  "n \<le> 0 \<Longrightarrow> divide lst n = (if n = 0 then Inl ValueError else Inr [])"
  by (simp add: divide_def py_range_def range_from_nonpos)

theorem divide_nonpositive_witness:
  "(0::int) \<le> 0 \<and> divide [1, 2, 3 :: int] 0 = Inl ValueError"
  using divide_nonpositive [of 0 "[1, 2, 3 :: int]"] by simp

lemma py_slice_take_drop:
  "0 \<le> i \<Longrightarrow> 0 < n \<Longrightarrow> py_slice xs i (i + n) = take (nat n) (drop (nat i) xs)"
  by (auto simp: py_slice_def slice_bound_def Let_def min_def nat_add_distrib)

lemma divide_range_chunks:
  "0 < n \<Longrightarrow> 0 \<le> i \<Longrightarrow>
   map (\<lambda>j. py_slice xs j (j + n)) (range_from i (int (length xs)) n)
     = chunks (nat n) (drop (nat i) xs)"
proof (induction i "int (length xs)" n rule: range_from.induct)
  case (1 i step)
  show ?case
  proof (cases "i < int (length xs)")
    case True
    have d: "nat step + nat i = nat (i + step)"
      using 1(2,3) by (simp add: nat_add_distrib)
    have ih: "map (\<lambda>j. py_slice xs j (j + step)) (range_from (i + step) (int (length xs)) step)
          = chunks (nat step) (drop (nat (i + step)) xs)"
      using 1 True by simp
    have ne: "drop (nat i) xs \<noteq> []" using True 1(3) by simp
    show ?thesis
      using True 1(2,3) ne
      by (subst range_from.simps, subst chunks.simps)
         (simp add: py_slice_take_drop ih d)
  next
    case False
    then have "drop (nat i) xs = []" by simp
    then show ?thesis
      using False 1(2) by (subst range_from.simps, subst chunks.simps) simp
  qed
qed

lemma divide_chunks: "0 < n \<Longrightarrow> divide lst n = Inr (chunks (nat n) lst)"
  using divide_range_chunks [of n 0 lst] by (simp add: divide_def py_range_def)

lemma concat_chunks: "0 < m \<Longrightarrow> concat (chunks m xs) = xs"
proof (induction m xs rule: chunks.induct)
  case (1 m xs)
  then show ?case by (subst chunks.simps) auto
qed

lemma chunks_lengths:
  "b \<in> set (chunks m xs) \<Longrightarrow> b \<noteq> [] \<and> length b \<le> m"
proof (induction m xs rule: chunks.induct)
  case (1 m xs)
  show ?case
  proof (cases "m = 0 \<or> xs = []")
    case True
    with 1(2) show ?thesis by (subst (asm) chunks.simps) simp
  next
    case False
    then have "chunks m xs = take m xs # chunks m (drop m xs)"
      by (subst chunks.simps) simp
    with 1(2) have "b = take m xs \<or> b \<in> set (chunks m (drop m xs))" by simp
    then show ?thesis
    proof
      assume "b = take m xs"
      with False show ?thesis by simp
    next
      assume "b \<in> set (chunks m (drop m xs))"
      with 1(1) False show ?thesis by blast
    qed
  qed
qed

lemma chunks_butlast_full:
  "b \<in> set (butlast (chunks m xs)) \<Longrightarrow> length b = m"
proof (induction m xs rule: chunks.induct)
  case (1 m xs)
  show ?case
  proof (cases "m = 0 \<or> xs = []")
    case True
    with 1(2) show ?thesis by (subst (asm) chunks.simps) simp
  next
    case False
    then have eq: "chunks m xs = take m xs # chunks m (drop m xs)"
      by (subst chunks.simps) simp
    show ?thesis
    proof (cases "chunks m (drop m xs) = []")
      case True
      with 1(2) eq show ?thesis by simp
    next
      case ne: False
      then have "drop m xs \<noteq> []" by (subst (asm) chunks.simps) (auto split: if_splits)
      then have "length (take m xs) = m" by simp
      with 1(2) eq ne 1(1)[OF False] show ?thesis by auto
    qed
  qed
qed

text \<open>
  Claim C8. For a positive batch size \<open>n\<close>, \<open>divide lst n\<close> returns batches whose
  concatenation is \<open>lst\<close> (contiguous runs in the original order, nothing dropped or
  repeated); each batch is non-empty and has at most \<open>n\<close> elements; every batch but the
  last has exactly \<open>n\<close>; and the empty list gives no batch.
\<close>

theorem divide_partition:
  assumes "0 < n"
  shows "\<exists>bs. divide lst n = Inr bs
           \<and> concat bs = lst
           \<and> (\<forall>b \<in> set bs. b \<noteq> [] \<and> int (length b) \<le> n)
           \<and> (\<forall>b \<in> set (butlast bs). int (length b) = n)
           \<and> (lst = [] \<longrightarrow> bs = [])"
proof -
  let ?bs = "chunks (nat n) lst"
  have m: "0 < nat n" using assms by simp
  have "divide lst n = Inr ?bs" using assms by (rule divide_chunks)
  moreover have "concat ?bs = lst" using m by (rule concat_chunks)
  moreover have "\<forall>b \<in> set ?bs. b \<noteq> [] \<and> int (length b) \<le> n"
    using chunks_lengths [of _ "nat n" lst] assms by fastforce
  moreover have "\<forall>b \<in> set (butlast ?bs). int (length b) = n"
    using chunks_butlast_full [of _ "nat n" lst] assms by fastforce
  moreover have "lst = [] \<longrightarrow> ?bs = []" by (subst chunks.simps) simp
  ultimately show ?thesis by blast
qed

theorem divide_partition_witness:
  "(0::int) < 2 \<and> divide [1, 2, 3, 4, 5 :: int] 2 = Inr [ [1, 2], [3, 4], [5] ]
   \<and> divide ([] :: int list) 2 = Inr []"
proof -
  have a: "divide [1, 2, 3, 4, 5 :: int] 2 = Inr [ [1, 2], [3, 4], [5] ]" by code_simp
  have b: "divide ([] :: int list) 2 = Inr []" by code_simp
  show ?thesis using divide_partition [of 2 "[1, 2, 3, 4, 5 :: int]"] a b by simp
qed

section \<open>The integer of a text\<close>

lemma split_char_ne: "split_char sep s \<noteq> []"
  by (induction s) (auto split: list.splits)

lemma split_char_hd: "hd (split_char sep s) = takeWhile (\<lambda>c. c \<noteq> sep) s"
  by (induction s) (auto split: list.splits simp: split_char_ne)

lemma concat_split_char: "concat (split_char sep s) = filter (\<lambda>c. c \<noteq> sep) s"
  by (induction s) (auto split: list.splits simp: split_char_ne)

lemma split_char_all:
  "list_all (list_all P) (split_char sep s) \<longleftrightarrow> (\<forall>c \<in> set s. c = sep \<or> P c)"
proof -
  have "list_all (list_all P) (split_char sep s)
          \<longleftrightarrow> (\<forall>c \<in> set (concat (split_char sep s)). P c)"
    by (auto simp: list_all_iff)
  then show ?thesis by (auto simp: concat_split_char)
qed

lemma under_not_digit: "\<not> is_digit CHR ''_''"
  by (simp add: is_digit_def)

lemma space_not_digit_under: "is_space c \<Longrightarrow> \<not> is_digit c \<and> c \<noteq> CHR ''_''"
  by (auto simp: is_space_def is_digit_def)

lemma scan_digits_pure:
  "\<forall>c \<in> set p. is_digit c \<or> c = CHR ''_'' \<Longrightarrow>
   scan_digits pu v d p =
     (if list_all (\<lambda>g. g \<noteq> [])
           (if pu then split_char CHR ''_'' p else tl (split_char CHR ''_'' p))
      then Some (foldl (\<lambda>a c. 10 * a + digit_val c) v (filter is_digit p),
                 d + length (filter is_digit p), [])
      else None)"
proof (induction p arbitrary: pu v d)
  case Nil
  then show ?case by simp
next
  case (Cons c cs)
  obtain g gs where s: "split_char CHR ''_'' cs = g # gs"
    using split_char_ne [of "CHR ''_''" cs] by (cases "split_char CHR ''_'' cs") auto
  from Cons.prems have pure: "\<forall>c \<in> set cs. is_digit c \<or> c = CHR ''_''" by simp
  show ?case
  proof (cases "is_digit c")
    case True
    then have "c \<noteq> CHR ''_''" using under_not_digit by auto
    with True s Cons.IH [OF pure, of False "10 * v + digit_val c" "Suc d"]
    show ?thesis by simp
  next
    case False
    with Cons.prems have u: "c = CHR ''_''" by simp
    with False s Cons.IH [OF pure, of True v d] show ?thesis by simp
  qed
qed

lemma scan_digits_split:
  "scan_digits pu v d s =
     (case scan_digits pu v d (takeWhile (\<lambda>c. is_digit c \<or> c = CHR ''_'') s) of
        None \<Rightarrow> None
      | Some (v', d', r) \<Rightarrow> Some (v', d', dropWhile (\<lambda>c. is_digit c \<or> c = CHR ''_'') s))"
proof (induction s arbitrary: pu v d)
  case Nil
  then show ?case by simp
next
  case (Cons c cs)
  show ?case
  proof (cases "is_digit c")
    case True
    with Cons.IH [of False "10 * v + digit_val c" "Suc d"] show ?thesis
      by (simp split: option.splits)
  next
    case False
    show ?thesis
    proof (cases "c = CHR ''_''")
      case True
      with False Cons.IH [of True v d] show ?thesis by (simp split: option.splits)
    next
      case nu: False
      with False show ?thesis by simp
    qed
  qed
qed

lemma scan_digits_start:
  "scan_digits False 0 0 s =
     (let p = takeWhile (\<lambda>c. is_digit c \<or> c = CHR ''_'') s in
      if list_all (\<lambda>g. g \<noteq> []) (tl (split_char CHR ''_'' p))
      then Some (decimal_value (filter is_digit p), length (filter is_digit p),
                 dropWhile (\<lambda>c. is_digit c \<or> c = CHR ''_'') s)
      else None)"
proof -
  let ?p = "takeWhile (\<lambda>c. is_digit c \<or> c = CHR ''_'') s"
  have "\<forall>c \<in> set ?p. is_digit c \<or> c = CHR ''_''" by (auto dest: set_takeWhileD)
  from scan_digits_pure [OF this, of False 0 0] show ?thesis
    by (subst scan_digits_split) (simp add: decimal_value_def Let_def)
qed

lemma rstrip_decomp:
  "\<exists>bl. s = rev (dropWhile is_space (rev s)) @ bl \<and> (\<forall>c \<in> set bl. is_space c)"
proof -
  have "rev s = takeWhile is_space (rev s) @ dropWhile is_space (rev s)" by simp
  then have "s = rev (dropWhile is_space (rev s)) @ rev (takeWhile is_space (rev s))"
    by (metis rev_append rev_rev_ident)
  moreover have "\<forall>c \<in> set (rev (takeWhile is_space (rev s))). is_space c"
    by (auto dest: set_takeWhileD)
  ultimately show ?thesis by blast
qed

lemma rstrip_pure_blanks:
  assumes "\<forall>c \<in> set p. \<not> is_space c" and "\<forall>c \<in> set bl. is_space c"
  shows "rev (dropWhile is_space (rev (p @ bl))) = p"
proof -
  have "\<And>x. x \<in> set (rev bl) \<Longrightarrow> is_space x" using assms(2) by simp
  then have "dropWhile is_space (rev bl @ rev p) = dropWhile is_space (rev p)"
    by (rule dropWhile_append2)
  moreover have "dropWhile is_space (rev p) = rev p"
    using assms(1) by (cases "rev p") auto
  ultimately show ?thesis by simp
qed

lemma rstrip_cons:
  assumes "\<not> is_space c"
  shows "rev (dropWhile is_space (rev (c # r))) = c # rev (dropWhile is_space (rev r))"
proof -
  obtain bl where d: "r = rev (dropWhile is_space (rev r)) @ bl"
    and b: "\<forall>c \<in> set bl. is_space c" using rstrip_decomp by blast
  let ?q = "rev (dropWhile is_space (rev r))"
  have "dropWhile is_space (rev (c # ?q @ bl)) = rev (c # ?q)"
  proof -
    have e: "rev (c # ?q @ bl) = rev bl @ (rev ?q @ [c])" by simp
    have "\<And>x. x \<in> set (rev bl) \<Longrightarrow> is_space x" using b by simp
    then have "dropWhile is_space (rev bl @ (rev ?q @ [c])) = dropWhile is_space (rev ?q @ [c])"
      by (rule dropWhile_append2)
    with e have "dropWhile is_space (rev (c # ?q @ bl)) = dropWhile is_space (rev ?q @ [c])"
      by simp
    also have "\<dots> = rev ?q @ [c]"
    proof (cases "dropWhile is_space (rev r)")
      case Nil
      then show ?thesis using assms by (simp del: dropWhile_eq_Nil_conv)
    next
      case (Cons x xs)
      then have "\<not> is_space x" using hd_dropWhile [of is_space "rev r"] by auto
      with Cons show ?thesis by simp
    qed
    finally show ?thesis by simp
  qed
  then have "rev (dropWhile is_space (rev (c # ?q @ bl))) = c # ?q" by simp
  with d show ?thesis by simp
qed


lemma pure_filter_digits:
  "\<forall>c \<in> set p. is_digit c \<or> c = CHR ''_'' \<Longrightarrow>
   concat (split_char CHR ''_'' p) = filter is_digit p"
proof -
  assume "\<forall>c \<in> set p. is_digit c \<or> c = CHR ''_''"
  then have "filter (\<lambda>c. c \<noteq> CHR ''_'') p = filter is_digit p"
    using under_not_digit by (intro filter_cong) auto
  then show ?thesis by (simp add: concat_split_char)
qed

lemma dropWhile_blanks:
  assumes "\<forall>c \<in> set b. is_digit c \<or> c = CHR ''_''" and "\<forall>c \<in> set bl. is_space c"
  shows "takeWhile (\<lambda>c. is_digit c \<or> c = CHR ''_'') (b @ bl) = b"
    and "dropWhile (\<lambda>c. is_digit c \<or> c = CHR ''_'') (b @ bl) = bl"
proof -
  let ?du = "\<lambda>c. is_digit c \<or> c = CHR ''_''"
  have n: "\<forall>c \<in> set bl. \<not> ?du c" using assms(2) space_not_digit_under by blast
  then have t: "takeWhile ?du bl = []" and d: "dropWhile ?du bl = bl"
    by (cases bl; simp)+
  have a: "\<And>x. x \<in> set b \<Longrightarrow> ?du x" using assms(1) by blast
  show "takeWhile ?du (b @ bl) = b" using takeWhile_append2 [of b ?du bl, OF a] t by simp
  show "dropWhile ?du (b @ bl) = bl" using dropWhile_append2 [of b ?du bl, OF a] d by simp
qed

lemma long_body:
  "digits_part neg u = groups_literal neg (rev (dropWhile is_space (rev u)))"
proof -
  let ?du = "\<lambda>c. is_digit c \<or> c = CHR ''_''"
  let ?p = "takeWhile ?du u" and ?rest = "dropWhile ?du u"
  let ?b = "rev (dropWhile is_space (rev u))"
  let ?ne = "list_all (\<lambda>g :: string. g \<noteq> [])"
  have pure_p: "\<forall>c \<in> set ?p. ?du c" by (auto dest: set_takeWhileD)
  have scan: "scan_digits False 0 0 u =
      (if ?ne (tl (split_char CHR ''_'' ?p))
       then Some (decimal_value (filter is_digit ?p), length (filter is_digit ?p), ?rest)
       else None)"
    by (simp add: scan_digits_start Let_def)
  have conj: "list_all (\<lambda>g. g \<noteq> [] \<and> list_all is_digit g) gs
                \<longleftrightarrow> ?ne gs \<and> list_all (list_all is_digit) gs" for gs
    by (auto simp: list_all_iff)
  show ?thesis
  proof (cases "\<forall>c \<in> set ?rest. is_space c")
    case True
    have "\<forall>c \<in> set ?p. \<not> is_space c" using pure_p space_not_digit_under by blast
    from rstrip_pure_blanks [OF this True] have b: "?b = ?p" by simp
    have dig: "concat (split_char CHR ''_'' ?p) = filter is_digit ?p"
      using pure_p by (rule pure_filter_digits)
    have alld: "list_all (list_all is_digit) (split_char CHR ''_'' ?p)"
      using pure_p by (auto simp: split_char_all)
    have dw: "dropWhile is_space ?rest = []" using True by simp
    obtain g gs where sp: "split_char CHR ''_'' ?p = g # gs"
      using split_char_ne [of "CHR ''_''" ?p] by (cases "split_char CHR ''_'' ?p") auto
    have g: "g = takeWhile (\<lambda>c. c \<noteq> CHR ''_'') ?p"
      using split_char_hd [of "CHR ''_''" ?p] sp by simp
    have first: "g \<noteq> [] \<longleftrightarrow> u \<noteq> [] \<and> hd u \<noteq> CHR ''_'' \<and> filter is_digit ?p \<noteq> []"
    proof (cases u)
      case Nil
      then show ?thesis using g by simp
    next
      case (Cons c r)
      show ?thesis
      proof (cases "c = CHR ''_''")
        case True
        with Cons g under_not_digit show ?thesis by simp
      next
        case False
        show ?thesis
        proof (cases "is_digit c")
          case True
          with Cons False g show ?thesis by simp
        next
          case nd: False
          with Cons False g show ?thesis by simp
        qed
      qed
    qed
    show ?thesis
    proof (cases u)
      case Nil
      then show ?thesis by (simp add: Let_def digits_part_def groups_literal_def)
    next
      case (Cons c r)
      have lhs: "(case u of
          [] \<Rightarrow> None
        | c # r \<Rightarrow>
            if c = CHR ''_'' then None
            else (case scan_digits False 0 0 u of
                    None \<Rightarrow> None
                  | Some (val, digits, rest) \<Rightarrow>
                      if digits = 0 \<or> max_str_digits < digits then None
                      else if dropWhile is_space rest \<noteq> [] then None
                      else Some (if neg then - int val else int val)))
        = (if hd u \<noteq> CHR ''_'' \<and> ?ne gs \<and> filter is_digit ?p \<noteq> []
              \<and> length (filter is_digit ?p) \<le> max_str_digits
           then Some (if neg then - int (decimal_value (filter is_digit ?p))
                      else int (decimal_value (filter is_digit ?p)))
           else None)"
        unfolding scan sp using dw Cons by (auto simp: Cons)
      have rhs: "(let groups = split_char CHR ''_'' ?b
          in if list_all (\<lambda>g. g \<noteq> [] \<and> list_all is_digit g) groups
                \<and> length (concat groups) \<le> max_str_digits
             then Some (if neg then - int (decimal_value (concat groups))
                        else int (decimal_value (concat groups)))
             else None)
        = (if g \<noteq> [] \<and> ?ne gs \<and> length (filter is_digit ?p) \<le> max_str_digits
           then Some (if neg then - int (decimal_value (filter is_digit ?p))
                      else int (decimal_value (filter is_digit ?p)))
           else None)"
        unfolding b Let_def conj using alld dig sp by simp
      show ?thesis
        unfolding digits_part_def groups_literal_def lhs rhs using first Cons by auto
    qed
  next
    case False
    then have dw: "dropWhile is_space ?rest \<noteq> []" by simp
    have "\<not> (\<forall>c \<in> set ?b. ?du c)"
    proof
      assume pure_b: "\<forall>c \<in> set ?b. ?du c"
      obtain bl where d: "u = ?b @ bl" and bl: "\<forall>c \<in> set bl. is_space c"
        using rstrip_decomp by blast
      from dropWhile_blanks(2) [OF pure_b bl] d have "?rest = bl" by simp
      with bl False show False by simp
    qed
    then have "\<not> list_all (list_all is_digit) (split_char CHR ''_'' ?b)"
      by (auto simp: split_char_all)
    then have rhs: "\<not> list_all (\<lambda>g. g \<noteq> [] \<and> list_all is_digit g) (split_char CHR ''_'' ?b)"
      by (simp add: conj)
    show ?thesis
      unfolding digits_part_def groups_literal_def scan
      using dw rhs by (auto simp: Let_def split: list.splits)
  qed
qed

lemma long_from_string_literal: "long_from_string t = decimal_literal t"
proof (cases "dropWhile is_space t")
  case Nil
  then have "strip t = []" by (simp add: strip_def del: dropWhile_eq_Nil_conv)
  with Nil show ?thesis
    by (simp add: long_from_string_def decimal_literal_def groups_literal_def
          del: dropWhile_eq_Nil_conv)
next
  case (Cons c r)
  then have ns: "\<not> is_space c" using hd_dropWhile [of is_space t] by auto
  have core: "strip t = c # rev (dropWhile is_space (rev r))"
    using Cons rstrip_cons [OF ns, of r] by (simp add: strip_def)
  have full: "rev (dropWhile is_space (rev (c # r))) = c # rev (dropWhile is_space (rev r))"
    using rstrip_cons [OF ns] .
  show ?thesis
    using long_body [where u = r and neg = True] long_body [where u = r and neg = False]
      long_body [where u = "c # r" and neg = False]
    unfolding full
    by (simp add: long_from_string_def decimal_literal_def core Cons)
qed


lemma int_of_str_literal:
  "int_of_str s = (case int_literal s of None \<Rightarrow> Inl ValueError | Some i \<Rightarrow> Inr i)"
  by (simp add: int_of_str_def int_literal_def long_from_string_literal split: option.splits)

lemma digit_char_table:
  "list_all (\<lambda>d. is_digit (digit_char d) \<and> digit_val (digit_char d) = d
               \<and> of_char (digit_char d) < (128 :: nat)) [0, 1, 2, 3, 4, 5, 6, 7, 8, 9]"
  by code_simp

lemma digit_char_props:
  assumes "d < 10"
  shows "is_digit (digit_char d)" and "digit_val (digit_char d) = d"
    and "of_char (digit_char d) < (128 :: nat)"
proof -
  from assms have "d = 0 \<or> d = 1 \<or> d = 2 \<or> d = 3 \<or> d = 4 \<or> d = 5 \<or> d = 6 \<or> d = 7
      \<or> d = 8 \<or> d = 9" by arith
  then have "d \<in> set [0, 1, 2, 3, 4, 5, 6, 7, 8, 9]" by auto
  with digit_char_table show "is_digit (digit_char d)" and "digit_val (digit_char d) = d"
    and "of_char (digit_char d) < (128 :: nat)"
    unfolding list_all_iff by blast+
qed

lemma str_nat_digits: "c \<in> set (str_nat n) \<Longrightarrow> is_digit c"
proof (induction n arbitrary: c rule: str_nat.induct)
  case (1 n)
  show ?case
  proof (cases "n < 10")
    case True
    with 1(2) show ?thesis by (subst (asm) str_nat.simps) (simp add: digit_char_props)
  next
    case False
    with 1(2) have "c \<in> set (str_nat (n div 10)) \<or> c = digit_char (n mod 10)"
      by (subst (asm) str_nat.simps) auto
    with 1(1) [OF False] show ?thesis by (auto simp: digit_char_props)
  qed
qed

lemma str_nat_ne: "str_nat n \<noteq> []"
  by (subst str_nat.simps) simp

lemma decimal_value_snoc: "decimal_value (ds @ [c]) = 10 * decimal_value ds + digit_val c"
  by (simp add: decimal_value_def)

lemma decimal_value_str_nat: "decimal_value (str_nat n) = n"
proof (induction n rule: str_nat.induct)
  case (1 n)
  show ?case
  proof (cases "n < 10")
    case True
    then show ?thesis
      by (subst str_nat.simps) (simp add: decimal_value_def digit_char_props)
  next
    case False
    with 1 [OF False] show ?thesis
      by (subst str_nat.simps) (simp add: decimal_value_snoc digit_char_props)
  qed
qed

lemma split_char_absent: "sep \<notin> set s \<Longrightarrow> split_char sep s = [s]"
  by (induction s) auto

lemma digit_facts:
  assumes "is_digit c"
  shows "\<not> is_space c" and "c \<noteq> CHR ''_''" and "c \<noteq> CHR ''-''" and "c \<noteq> CHR ''+''"
    and "of_char c < (128 :: nat)"
  using assms by (auto simp: is_digit_def is_space_def)

lemma strip_digits:
  assumes "ds \<noteq> []" and "\<forall>c \<in> set ds. is_digit c"
  shows "strip ds = ds"
proof -
  from assms obtain c r where ds: "ds = c # r" by (cases ds) auto
  with assms(2) have "\<not> is_space c" using digit_facts(1) by simp
  then have a: "dropWhile is_space ds = ds" using ds by simp
  have "\<forall>c \<in> set ds. \<not> is_space c" using assms(2) digit_facts(1) by blast
  from rstrip_pure_blanks [OF this, of "[]"] a show ?thesis by (simp add: strip_def)
qed

lemma groups_literal_digits:
  assumes "ds \<noteq> []" and "\<forall>c \<in> set ds. is_digit c" and "length ds \<le> max_str_digits"
  shows "groups_literal neg ds
           = Some (if neg then - int (decimal_value ds) else int (decimal_value ds))"
proof -
  have "CHR ''_'' \<notin> set ds" using assms(2) digit_facts(2) by blast
  then have "split_char CHR ''_'' ds = [ds]" by (rule split_char_absent)
  with assms show ?thesis by (simp add: groups_literal_def list_all_iff)
qed

lemma decimal_literal_digits:
  assumes "ds \<noteq> []" and "\<forall>c \<in> set ds. is_digit c" and "length ds \<le> max_str_digits"
  shows "decimal_literal ds = Some (int (decimal_value ds))"
    and "decimal_literal (CHR ''-'' # ds) = Some (- int (decimal_value ds))"
proof -
  from assms obtain c r where ds: "ds = c # r" by (cases ds) auto
  with assms(2) have c: "c \<noteq> CHR ''-''" "c \<noteq> CHR ''+''" using digit_facts by auto
  from strip_digits [OF assms(1,2)] ds c groups_literal_digits [OF assms, of False]
  show "decimal_literal ds = Some (int (decimal_value ds))"
    by (simp add: decimal_literal_def)
  have "\<not> is_space CHR ''-''" by (simp add: is_space_def)
  then have "strip (CHR ''-'' # ds) = CHR ''-'' # rev (dropWhile is_space (rev ds))"
    using rstrip_cons [of "CHR ''-''" ds] by (simp add: strip_def)
  also have "rev (dropWhile is_space (rev ds)) = ds"
  proof -
    have "\<forall>c \<in> set ds. \<not> is_space c" using assms(2) digit_facts(1) by blast
    from rstrip_pure_blanks [OF this, of "[]"] show ?thesis by simp
  qed
  finally have "strip (CHR ''-'' # ds) = CHR ''-'' # ds" .
  with groups_literal_digits [OF assms, of True]
  show "decimal_literal (CHR ''-'' # ds) = Some (- int (decimal_value ds))"
    by (simp add: decimal_literal_def)
qed

lemma int_literal_str_int:
  assumes "length (str_nat (nat \<bar>i\<bar>)) \<le> max_str_digits"
  shows "int_literal (str_int i) = Some i"
proof -
  let ?ds = "str_nat (nat \<bar>i\<bar>)"
  have d: "\<forall>c \<in> set ?ds. is_digit c" using str_nat_digits by blast
  have ne: "?ds \<noteq> []" by (rule str_nat_ne)
  have v: "decimal_value ?ds = nat \<bar>i\<bar>" by (rule decimal_value_str_nat)
  have a: "list_all (\<lambda>c. of_char c < (128 :: nat)) (str_int i)"
    using d digit_facts(5) by (auto simp: str_int_def list_all_iff)
  show ?thesis
  proof (cases "i < 0")
    case True
    then have "str_int i = CHR ''-'' # ?ds" by (simp add: str_int_def)
    with a decimal_literal_digits(2) [OF ne d assms] v True show ?thesis
      by (simp add: int_literal_def transform_decimal_and_space_def)
  next
    case False
    then have "str_int i = ?ds" by (simp add: str_int_def)
    with a decimal_literal_digits(1) [OF ne d assms] v False show ?thesis
      by (simp add: int_literal_def transform_decimal_and_space_def)
  qed
qed


text \<open>
  The tables at work: the six ASCII blanks and the seventeen blanks beyond ASCII around a
  digit; the nines of all sixty-six runs of decimal digits in one text, and their zeros
  before a seven. A zero-width space, a Mongolian vowel separator and a superscript two
  are neither blank nor digit.
\<close>

lemma int_of_str_tables:
  "int_of_str [CHR 0x09, CHR 0x0A, CHR 0x0B, CHR 0x0C, CHR 0x0D, CHR 0x20, CHR 0x37, CHR 0x09,
      CHR 0x0A, CHR 0x0B, CHR 0x0C, CHR 0x0D, CHR 0x20] = Inr 7"
  "int_of_str
     [CHR 0xC2, CHR 0x85, CHR 0xC2, CHR 0xA0, CHR 0xE1, CHR 0x9A, CHR 0x80, CHR 0xE2,
      CHR 0x80, CHR 0x80, CHR 0xE2, CHR 0x80, CHR 0x81, CHR 0xE2, CHR 0x80, CHR 0x82,
      CHR 0xE2, CHR 0x80, CHR 0x83, CHR 0xE2, CHR 0x80, CHR 0x84, CHR 0xE2, CHR 0x80,
      CHR 0x85, CHR 0xE2, CHR 0x80, CHR 0x86, CHR 0xE2, CHR 0x80, CHR 0x87, CHR 0xE2,
      CHR 0x80, CHR 0x88, CHR 0xE2, CHR 0x80, CHR 0x89, CHR 0xE2, CHR 0x80, CHR 0x8A,
      CHR 0xE2, CHR 0x80, CHR 0xA8, CHR 0xE2, CHR 0x80, CHR 0xA9, CHR 0xE2, CHR 0x80,
      CHR 0xAF, CHR 0xE2, CHR 0x81, CHR 0x9F, CHR 0xE3, CHR 0x80, CHR 0x80, CHR 0x37,
      CHR 0xC2, CHR 0x85, CHR 0xC2, CHR 0xA0, CHR 0xE1, CHR 0x9A, CHR 0x80, CHR 0xE2,
      CHR 0x80, CHR 0x80, CHR 0xE2, CHR 0x80, CHR 0x81, CHR 0xE2, CHR 0x80, CHR 0x82,
      CHR 0xE2, CHR 0x80, CHR 0x83, CHR 0xE2, CHR 0x80, CHR 0x84, CHR 0xE2, CHR 0x80,
      CHR 0x85, CHR 0xE2, CHR 0x80, CHR 0x86, CHR 0xE2, CHR 0x80, CHR 0x87, CHR 0xE2,
      CHR 0x80, CHR 0x88, CHR 0xE2, CHR 0x80, CHR 0x89, CHR 0xE2, CHR 0x80, CHR 0x8A,
      CHR 0xE2, CHR 0x80, CHR 0xA8, CHR 0xE2, CHR 0x80, CHR 0xA9, CHR 0xE2, CHR 0x80,
      CHR 0xAF, CHR 0xE2, CHR 0x81, CHR 0x9F, CHR 0xE3, CHR 0x80, CHR 0x80] = Inr 7"
  "int_of_str
     [CHR 0x39, CHR 0xD9, CHR 0xA9, CHR 0xDB, CHR 0xB9, CHR 0xDF, CHR 0x89, CHR 0xE0,
      CHR 0xA5, CHR 0xAF, CHR 0xE0, CHR 0xA7, CHR 0xAF, CHR 0xE0, CHR 0xA9, CHR 0xAF,
      CHR 0xE0, CHR 0xAB, CHR 0xAF, CHR 0xE0, CHR 0xAD, CHR 0xAF, CHR 0xE0, CHR 0xAF,
      CHR 0xAF, CHR 0xE0, CHR 0xB1, CHR 0xAF, CHR 0xE0, CHR 0xB3, CHR 0xAF, CHR 0xE0,
      CHR 0xB5, CHR 0xAF, CHR 0xE0, CHR 0xB7, CHR 0xAF, CHR 0xE0, CHR 0xB9, CHR 0x99,
      CHR 0xE0, CHR 0xBB, CHR 0x99, CHR 0xE0, CHR 0xBC, CHR 0xA9, CHR 0xE1, CHR 0x81,
      CHR 0x89, CHR 0xE1, CHR 0x82, CHR 0x99, CHR 0xE1, CHR 0x9F, CHR 0xA9, CHR 0xE1,
      CHR 0xA0, CHR 0x99, CHR 0xE1, CHR 0xA5, CHR 0x8F, CHR 0xE1, CHR 0xA7, CHR 0x99,
      CHR 0xE1, CHR 0xAA, CHR 0x89, CHR 0xE1, CHR 0xAA, CHR 0x99, CHR 0xE1, CHR 0xAD,
      CHR 0x99, CHR 0xE1, CHR 0xAE, CHR 0xB9, CHR 0xE1, CHR 0xB1, CHR 0x89, CHR 0xE1,
      CHR 0xB1, CHR 0x99, CHR 0xEA, CHR 0x98, CHR 0xA9, CHR 0xEA, CHR 0xA3, CHR 0x99,
      CHR 0xEA, CHR 0xA4, CHR 0x89, CHR 0xEA, CHR 0xA7, CHR 0x99, CHR 0xEA, CHR 0xA7,
      CHR 0xB9, CHR 0xEA, CHR 0xA9, CHR 0x99, CHR 0xEA, CHR 0xAF, CHR 0xB9, CHR 0xEF,
      CHR 0xBC, CHR 0x99, CHR 0xF0, CHR 0x90, CHR 0x92, CHR 0xA9, CHR 0xF0, CHR 0x90,
      CHR 0xB4, CHR 0xB9, CHR 0xF0, CHR 0x91, CHR 0x81, CHR 0xAF, CHR 0xF0, CHR 0x91,
      CHR 0x83, CHR 0xB9, CHR 0xF0, CHR 0x91, CHR 0x84, CHR 0xBF, CHR 0xF0, CHR 0x91,
      CHR 0x87, CHR 0x99, CHR 0xF0, CHR 0x91, CHR 0x8B, CHR 0xB9, CHR 0xF0, CHR 0x91,
      CHR 0x91, CHR 0x99, CHR 0xF0, CHR 0x91, CHR 0x93, CHR 0x99, CHR 0xF0, CHR 0x91,
      CHR 0x99, CHR 0x99, CHR 0xF0, CHR 0x91, CHR 0x9B, CHR 0x89, CHR 0xF0, CHR 0x91,
      CHR 0x9C, CHR 0xB9, CHR 0xF0, CHR 0x91, CHR 0xA3, CHR 0xA9, CHR 0xF0, CHR 0x91,
      CHR 0xA5, CHR 0x99, CHR 0xF0, CHR 0x91, CHR 0xB1, CHR 0x99, CHR 0xF0, CHR 0x91,
      CHR 0xB5, CHR 0x99, CHR 0xF0, CHR 0x91, CHR 0xB6, CHR 0xA9, CHR 0xF0, CHR 0x96,
      CHR 0xA9, CHR 0xA9, CHR 0xF0, CHR 0x96, CHR 0xAB, CHR 0x89, CHR 0xF0, CHR 0x96,
      CHR 0xAD, CHR 0x99, CHR 0xF0, CHR 0x9D, CHR 0x9F, CHR 0x97, CHR 0xF0, CHR 0x9D,
      CHR 0x9F, CHR 0xA1, CHR 0xF0, CHR 0x9D, CHR 0x9F, CHR 0xAB, CHR 0xF0, CHR 0x9D,
      CHR 0x9F, CHR 0xB5, CHR 0xF0, CHR 0x9D, CHR 0x9F, CHR 0xBF, CHR 0xF0, CHR 0x9E,
      CHR 0x85, CHR 0x89, CHR 0xF0, CHR 0x9E, CHR 0x8B, CHR 0xB9, CHR 0xF0, CHR 0x9E,
      CHR 0xA5, CHR 0x99, CHR 0xF0, CHR 0x9F, CHR 0xAF, CHR 0xB9]
   = Inr 999999999999999999999999999999999999999999999999999999999999999999"
  "int_of_str
     [CHR 0x30, CHR 0xD9, CHR 0xA0, CHR 0xDB, CHR 0xB0, CHR 0xDF, CHR 0x80, CHR 0xE0,
      CHR 0xA5, CHR 0xA6, CHR 0xE0, CHR 0xA7, CHR 0xA6, CHR 0xE0, CHR 0xA9, CHR 0xA6,
      CHR 0xE0, CHR 0xAB, CHR 0xA6, CHR 0xE0, CHR 0xAD, CHR 0xA6, CHR 0xE0, CHR 0xAF,
      CHR 0xA6, CHR 0xE0, CHR 0xB1, CHR 0xA6, CHR 0xE0, CHR 0xB3, CHR 0xA6, CHR 0xE0,
      CHR 0xB5, CHR 0xA6, CHR 0xE0, CHR 0xB7, CHR 0xA6, CHR 0xE0, CHR 0xB9, CHR 0x90,
      CHR 0xE0, CHR 0xBB, CHR 0x90, CHR 0xE0, CHR 0xBC, CHR 0xA0, CHR 0xE1, CHR 0x81,
      CHR 0x80, CHR 0xE1, CHR 0x82, CHR 0x90, CHR 0xE1, CHR 0x9F, CHR 0xA0, CHR 0xE1,
      CHR 0xA0, CHR 0x90, CHR 0xE1, CHR 0xA5, CHR 0x86, CHR 0xE1, CHR 0xA7, CHR 0x90,
      CHR 0xE1, CHR 0xAA, CHR 0x80, CHR 0xE1, CHR 0xAA, CHR 0x90, CHR 0xE1, CHR 0xAD,
      CHR 0x90, CHR 0xE1, CHR 0xAE, CHR 0xB0, CHR 0xE1, CHR 0xB1, CHR 0x80, CHR 0xE1,
      CHR 0xB1, CHR 0x90, CHR 0xEA, CHR 0x98, CHR 0xA0, CHR 0xEA, CHR 0xA3, CHR 0x90,
      CHR 0xEA, CHR 0xA4, CHR 0x80, CHR 0xEA, CHR 0xA7, CHR 0x90, CHR 0xEA, CHR 0xA7,
      CHR 0xB0, CHR 0xEA, CHR 0xA9, CHR 0x90, CHR 0xEA, CHR 0xAF, CHR 0xB0, CHR 0xEF,
      CHR 0xBC, CHR 0x90, CHR 0xF0, CHR 0x90, CHR 0x92, CHR 0xA0, CHR 0xF0, CHR 0x90,
      CHR 0xB4, CHR 0xB0, CHR 0xF0, CHR 0x91, CHR 0x81, CHR 0xA6, CHR 0xF0, CHR 0x91,
      CHR 0x83, CHR 0xB0, CHR 0xF0, CHR 0x91, CHR 0x84, CHR 0xB6, CHR 0xF0, CHR 0x91,
      CHR 0x87, CHR 0x90, CHR 0xF0, CHR 0x91, CHR 0x8B, CHR 0xB0, CHR 0xF0, CHR 0x91,
      CHR 0x91, CHR 0x90, CHR 0xF0, CHR 0x91, CHR 0x93, CHR 0x90, CHR 0xF0, CHR 0x91,
      CHR 0x99, CHR 0x90, CHR 0xF0, CHR 0x91, CHR 0x9B, CHR 0x80, CHR 0xF0, CHR 0x91,
      CHR 0x9C, CHR 0xB0, CHR 0xF0, CHR 0x91, CHR 0xA3, CHR 0xA0, CHR 0xF0, CHR 0x91,
      CHR 0xA5, CHR 0x90, CHR 0xF0, CHR 0x91, CHR 0xB1, CHR 0x90, CHR 0xF0, CHR 0x91,
      CHR 0xB5, CHR 0x90, CHR 0xF0, CHR 0x91, CHR 0xB6, CHR 0xA0, CHR 0xF0, CHR 0x96,
      CHR 0xA9, CHR 0xA0, CHR 0xF0, CHR 0x96, CHR 0xAB, CHR 0x80, CHR 0xF0, CHR 0x96,
      CHR 0xAD, CHR 0x90, CHR 0xF0, CHR 0x9D, CHR 0x9F, CHR 0x8E, CHR 0xF0, CHR 0x9D,
      CHR 0x9F, CHR 0x98, CHR 0xF0, CHR 0x9D, CHR 0x9F, CHR 0xA2, CHR 0xF0, CHR 0x9D,
      CHR 0x9F, CHR 0xAC, CHR 0xF0, CHR 0x9D, CHR 0x9F, CHR 0xB6, CHR 0xF0, CHR 0x9E,
      CHR 0x85, CHR 0x80, CHR 0xF0, CHR 0x9E, CHR 0x8B, CHR 0xB0, CHR 0xF0, CHR 0x9E,
      CHR 0xA5, CHR 0x90, CHR 0xF0, CHR 0x9F, CHR 0xAF, CHR 0xB0, CHR 0x37] = Inr 7"
  "int_of_str [CHR 0xE2, CHR 0x80, CHR 0x8B, CHR 0x37] = Inl ValueError"
  "int_of_str [CHR 0xE1, CHR 0xA0, CHR 0x8E, CHR 0x37] = Inl ValueError"
  "int_of_str [CHR 0xC2, CHR 0xB2] = Inl ValueError"
  by (simp_all add: int_of_str_def transform_decimal_and_space_def continuation_def
        wide_to_ascii_def unicode_space_def unicode_decimal_def decimal_zeros_def
        long_from_string_def digits_part_def is_space_def is_digit_def digit_val_def
        max_str_digits_def Let_def)

text \<open>
  A text of decimal digits alone is the integer of its decimal value, up to 4300 digits
  and no further; and the decimal text of an integer, as \<^verbatim>\<open>str\<close> writes it, is read back
  as that integer.
\<close>

lemma int_of_str_digits:
  assumes "ds \<noteq> []" and "\<forall>c \<in> set ds. is_digit c"
  shows "int_of_str ds
           = (if length ds \<le> 4300 then Inr (int (decimal_value ds)) else Inl ValueError)"
proof -
  have a: "list_all (\<lambda>c. of_char c < (128 :: nat)) ds"
    using assms(2) digit_facts(5) by (auto simp: list_all_iff)
  from assms obtain c r where ds: "ds = c # r" by (cases ds) auto
  with assms(2) have c: "c \<noteq> CHR ''-''" "c \<noteq> CHR ''+''" using digit_facts by auto
  have "CHR ''_'' \<notin> set ds" using assms(2) digit_facts(2) by blast
  then have g: "split_char CHR ''_'' ds = [ds]" by (rule split_char_absent)
  have "decimal_literal ds
          = (if length ds \<le> 4300 then Some (int (decimal_value ds)) else None)"
    using strip_digits [OF assms] ds c g assms
    by (simp add: decimal_literal_def groups_literal_def max_str_digits_def list_all_iff)
  with a show ?thesis
    by (simp add: int_of_str_literal int_literal_def transform_decimal_and_space_def)
qed

lemma int_of_str_limit:
  "int_of_str (replicate 4300 CHR ''0'' @ ''0'') = Inl ValueError"
  "int_of_str (replicate 4299 CHR ''0'' @ ''7'') = Inr 7"
proof -
  have z: "decimal_value (replicate k CHR ''0'' @ ds) = decimal_value ds" for k ds
    by (induction k) (simp_all add: decimal_value_def digit_val_def replicate_app_Cons_same)
  have d: "\<forall>c \<in> set (replicate k CHR ''0'' @ [x]). is_digit c" if "is_digit x" for k x
    using that by (auto simp: is_digit_def)
  show "int_of_str (replicate 4300 CHR ''0'' @ ''0'') = Inl ValueError"
    using int_of_str_digits [of "replicate 4300 CHR ''0'' @ ''0''"] d [of "CHR ''0''" 4300]
    by (simp add: is_digit_def)
  show "int_of_str (replicate 4299 CHR ''0'' @ ''7'') = Inr 7"
    using int_of_str_digits [of "replicate 4299 CHR ''0'' @ ''7''"] d [of "CHR ''7''" 4299]
      z [of 4299 "''7''"]
    by (simp add: is_digit_def decimal_value_def digit_val_def)
qed

lemma int_of_str_str_int:
  assumes "length (str_nat (nat \<bar>i\<bar>)) \<le> 4300"
  shows "int_of_str (str_int i) = Inr i"
  using int_literal_str_int [of i] assms
  by (simp add: int_of_str_literal max_str_digits_def)

section \<open>Stock records\<close>

lemma create_stocks_rows_mset:
  "create_stocks_rows V K acc = (Inr st, K') \<Longrightarrow>
   mset (map offer_id st) + mset K' = mset (map offer_id acc) + mset K"
proof (induction V arbitrary: K acc)
  case Nil
  then show ?case by simp
next
  case (Cons w ws)
  show ?case
  proof (cases "py_str (Kod w) \<in> set K")
    case False
    with Cons show ?thesis by simp
  next
    case True
    then show ?thesis
      using Cons.prems Cons.IH
      by (auto simp: Let_def split: sum.splits if_splits)
  qed
qed

lemma create_stocks_rows_error:
  "create_stocks_rows V K acc = (Inl e, K') \<Longrightarrow>
   \<exists>w \<in> set V. py_str (Kod w) \<in> set K \<and> py_str (Kolichestvo w) \<noteq> ''>10''
       \<and> py_str (Kolichestvo w) \<noteq> ''1'' \<and> py_int (Kolichestvo w) = Inl e"
proof (induction V arbitrary: K acc)
  case Nil
  then show ?case by simp
next
  case (Cons w ws)
  show ?case
  proof (cases "py_str (Kod w) \<in> set K")
    case False
    with Cons.prems have "create_stocks_rows ws K acc = (Inl e, K')" by simp
    from Cons.IH [OF this] show ?thesis by auto
  next
    case True
    let ?q = "if py_str (Kolichestvo w) = ''>10'' then Inr 100
              else if py_str (Kolichestvo w) = ''1'' then Inr 0
              else py_int (Kolichestvo w)"
    show ?thesis
    proof (cases ?q)
      case (Inl e')
      with True Cons.prems have "e' = e" by (simp add: Let_def)
      with Inl True show ?thesis by (auto split: if_splits)
    next
      case (Inr n)
      with True Cons.prems have
        "create_stocks_rows ws (remove1 (py_str (Kod w)) K)
           (acc @ [\<lparr>offer_id = py_str (Kod w), stock = n\<rparr>]) = (Inl e, K')"
        by (simp add: Let_def)
      from Cons.IH [OF this] obtain w' where
        "w' \<in> set ws" "py_str (Kod w') \<in> set (remove1 (py_str (Kod w)) K)"
        "py_str (Kolichestvo w') \<noteq> ''>10''" "py_str (Kolichestvo w') \<noteq> ''1''"
        "py_int (Kolichestvo w') = Inl e" by blast
      moreover have "set (remove1 (py_str (Kod w)) K) \<subseteq> set K" by (rule set_remove1_subset)
      ultimately show ?thesis by auto
    qed
  qed
qed

lemma create_stocks_Inr:
  "create_stocks V K = (Inr stocks, K') \<Longrightarrow>
   \<exists>st. create_stocks_rows V K [] = (Inr st, K')
       \<and> stocks = st @ map (\<lambda>i. \<lparr>offer_id = i, stock = 0\<rparr>) K'"
  by (auto simp: create_stocks_def split: prod.splits sum.splits)

lemma create_stocks_Inl:
  "create_stocks V K = (Inl e, K') \<Longrightarrow> create_stocks_rows V K [] = (Inl e, K')"
  by (auto simp: create_stocks_def split: prod.splits sum.splits)

lemma create_stocks_mset:
  assumes "create_stocks V K = (Inr stocks, K')"
  shows "mset (map offer_id stocks) = mset K"
proof -
  from create_stocks_Inr [OF assms] obtain st where
    r: "create_stocks_rows V K [] = (Inr st, K')"
    and s: "stocks = st @ map (\<lambda>i. \<lparr>offer_id = i, stock = 0\<rparr>) K'" by blast
  have "map offer_id (map (\<lambda>i. \<lparr>offer_id = i, stock = 0\<rparr>) K') = K'"
    by (simp add: comp_def)
  with s have "mset (map offer_id stocks) = mset (map offer_id st) + mset K'" by simp
  with create_stocks_rows_mset [OF r] show ?thesis by simp
qed



lemma create_stocks_rows_keeps:
  "create_stocks_rows V K acc = (Inr st, K') \<Longrightarrow> set acc \<subseteq> set st"
proof (induction V arbitrary: K acc)
  case Nil
  then show ?case by simp
next
  case (Cons w ws)
  show ?case
  proof (cases "py_str (Kod w) \<in> set K")
    case False
    with Cons show ?thesis by simp
  next
    case True
    with Cons.prems obtain n where
      "create_stocks_rows ws (remove1 (py_str (Kod w)) K)
         (acc @ [\<lparr>offer_id = py_str (Kod w), stock = n\<rparr>]) = (Inr st, K')"
      by (auto simp: Let_def split: sum.splits)
    from Cons.IH [OF this] show ?thesis by simp
  qed
qed

lemma create_stocks_rows_first_match:
  "create_stocks_rows V K acc = (Inr st, K') \<Longrightarrow>
   find (\<lambda>w. py_str (Kod w) = c) V = Some w \<Longrightarrow> c \<in> set K \<Longrightarrow>
   \<exists>n. \<lparr>offer_id = c, stock = n\<rparr> \<in> set st
     \<and> (if py_str (Kolichestvo w) = ''>10'' then n = 100
        else if py_str (Kolichestvo w) = ''1'' then n = 0
        else py_int (Kolichestvo w) = Inr n)"
proof (induction V arbitrary: K acc)
  case Nil
  then show ?case by simp
next
  case (Cons v vs)
  show ?case
  proof (cases "py_str (Kod v) = c")
    case True
    with Cons.prems(2) have wv: "w = v" by simp
    from True Cons.prems(1,3) obtain n where
      q: "(if py_str (Kolichestvo v) = ''>10'' then Inr 100
           else if py_str (Kolichestvo v) = ''1'' then Inr 0
           else py_int (Kolichestvo v)) = Inr n"
      and r: "create_stocks_rows vs (remove1 c K) (acc @ [\<lparr>offer_id = c, stock = n\<rparr>]) = (Inr st, K')"
      by (auto simp: Let_def split: sum.splits)
    from create_stocks_rows_keeps [OF r] have "\<lparr>offer_id = c, stock = n\<rparr> \<in> set st" by simp
    moreover from q wv have
      "if py_str (Kolichestvo w) = ''>10'' then n = 100
       else if py_str (Kolichestvo w) = ''1'' then n = 0
       else py_int (Kolichestvo w) = Inr n"
      by (auto split: if_splits)
    ultimately show ?thesis by blast
  next
    case False
    with Cons.prems(2) have f: "find (\<lambda>w. py_str (Kod w) = c) vs = Some w" by simp
    show ?thesis
    proof (cases "py_str (Kod v) \<in> set K")
      case nomatch: False
      with Cons.prems(1) have "create_stocks_rows vs K acc = (Inr st, K')" by simp
      from Cons.IH [OF this f Cons.prems(3)] show ?thesis .
    next
      case True
      with Cons.prems(1) obtain n where
        r: "create_stocks_rows vs (remove1 (py_str (Kod v)) K)
              (acc @ [\<lparr>offer_id = py_str (Kod v), stock = n\<rparr>]) = (Inr st, K')"
        by (auto simp: Let_def split: sum.splits)
      from False Cons.prems(3) have "c \<in> set (remove1 (py_str (Kod v)) K)" by simp
      from Cons.IH [OF r f this] show ?thesis .
    qed
  qed
qed

lemma create_stocks_rows_unmatched:
  "create_stocks_rows V K acc = (Inr st, K') \<Longrightarrow> c \<notin> (\<lambda>w. py_str (Kod w)) ` set V \<Longrightarrow>
   (c \<in> set K \<longrightarrow> c \<in> set K') \<and> (\<forall>r \<in> set st. offer_id r = c \<longrightarrow> r \<in> set acc)"
proof (induction V arbitrary: K acc)
  case Nil
  then show ?case by simp
next
  case (Cons v vs)
  from Cons.prems(2) have ne: "py_str (Kod v) \<noteq> c"
    and rest: "c \<notin> (\<lambda>w. py_str (Kod w)) ` set vs" by auto
  show ?case
  proof (cases "py_str (Kod v) \<in> set K")
    case False
    with Cons.prems(1) have "create_stocks_rows vs K acc = (Inr st, K')" by simp
    from Cons.IH [OF this rest] show ?thesis .
  next
    case True
    with Cons.prems(1) obtain n where
      r: "create_stocks_rows vs (remove1 (py_str (Kod v)) K)
            (acc @ [\<lparr>offer_id = py_str (Kod v), stock = n\<rparr>]) = (Inr st, K')"
      by (auto simp: Let_def split: sum.splits)
    from Cons.IH [OF r rest] ne show ?thesis by auto
  qed
qed

text \<open>
  Claim C2. For a duplicate-free list \<open>K\<close> of known offer ids and any vendor rows \<open>V\<close>,
  the list that \<open>create_stocks V K\<close> returns has the length of \<open>K\<close>, its offer ids are
  exactly the members of \<open>K\<close>, and none occurs twice. The call returns such a list unless
  \<^verbatim>\<open>int\<close> raises on the quantity of a row whose code is a known id and whose quantity is
  neither of the two sentinels; then it raises that error and returns nothing.
\<close>

theorem create_stocks_covers_catalog:
  assumes "distinct K"
  shows "case fst (create_stocks V K) of
           Inr stocks \<Rightarrow>
             length stocks = length K
             \<and> set (map offer_id stocks) = set K
             \<and> distinct (map offer_id stocks)
         | Inl e \<Rightarrow>
             \<exists>w \<in> set V. py_str (Kod w) \<in> set K \<and> py_str (Kolichestvo w) \<noteq> ''>10''
                \<and> py_str (Kolichestvo w) \<noteq> ''1'' \<and> py_int (Kolichestvo w) = Inl e"
proof (cases "create_stocks V K")
  case (Pair r K')
  show ?thesis
  proof (cases r)
    case (Inl e)
    with Pair create_stocks_Inl [of V K e K'] create_stocks_rows_error [of V K "[]" e K']
    show ?thesis by simp
  next
    case (Inr stocks)
    with Pair have m: "mset (map offer_id stocks) = mset K"
      using create_stocks_mset by simp
    then have "length (map offer_id stocks) = length K" by (rule mset_eq_length)
    moreover from m have "set (map offer_id stocks) = set K" by (rule mset_eq_setD)
    moreover from m assms have "distinct (map offer_id stocks)"
      using mset_eq_imp_distinct_iff by blast
    ultimately show ?thesis using Pair Inr by simp
  qed
qed

theorem create_stocks_covers_catalog_witness:
  "distinct [''A'', ''B'', ''C'']
   \<and> (case fst (create_stocks
          [\<lparr>Kod = PyStr ''B'', Kolichestvo = PyInt 4, Tsena = PyStr ''10.00''\<rparr>,
           \<lparr>Kod = PyStr ''Z'', Kolichestvo = PyStr ''n/a'', Tsena = PyNone\<rparr>,
           \<lparr>Kod = PyStr ''B'', Kolichestvo = PyInt 9, Tsena = PyStr ''11.00''\<rparr>]
          [''A'', ''B'', ''C'']) of
         Inr stocks \<Rightarrow> length stocks = 3 \<and> map offer_id stocks = [''B'', ''A'', ''C'']
       | Inl e \<Rightarrow> False)"
  using create_stocks_covers_catalog
    [of "[''A'', ''B'', ''C'']"
        "[\<lparr>Kod = PyStr ''B'', Kolichestvo = PyInt 4, Tsena = PyStr ''10.00''\<rparr>,
          \<lparr>Kod = PyStr ''Z'', Kolichestvo = PyStr ''n/a'', Tsena = PyNone\<rparr>,
          \<lparr>Kod = PyStr ''B'', Kolichestvo = PyInt 9, Tsena = PyStr ''11.00''\<rparr>]"]
  by (simp add: create_stocks_def str_int_def str_nat.simps digit_char_def)




text \<open>
  The same policy for the first row of the feed that carries a known code: that row is
  always matched.
\<close>

lemma create_stocks_first_match:
  assumes "fst (create_stocks V K) = Inr stocks"
    and "find (\<lambda>w. py_str (Kod w) = c) V = Some w"
    and "c \<in> set K"
  shows "\<exists>n. \<lparr>offer_id = c, stock = n\<rparr> \<in> set stocks
           \<and> (if py_str (Kolichestvo w) = ''>10'' then n = 100
              else if py_str (Kolichestvo w) = ''1'' then n = 0
              else py_int (Kolichestvo w) = Inr n)"
proof -
  obtain K' where "create_stocks V K = (Inr stocks, K')"
    using assms(1) by (cases "create_stocks V K") simp
  from create_stocks_Inr [OF this] obtain st where
    r: "create_stocks_rows V K [] = (Inr st, K')"
    and s: "stocks = st @ map (\<lambda>i. \<lparr>offer_id = i, stock = 0\<rparr>) K'" by blast
  from create_stocks_rows_first_match [OF r assms(2,3)] s show ?thesis by auto
qed

text \<open>
  Claim C5. An offer id that is in \<open>K\<close> and is the code of no row of \<open>V\<close> appears in
  the returned stocks with stock 0, and with no other stock.
\<close>

theorem create_stocks_zero_out:
  assumes "fst (create_stocks V K) = Inr stocks"
    and "c \<in> set K"
    and "c \<notin> (\<lambda>w. py_str (Kod w)) ` set V"
  shows "\<lparr>offer_id = c, stock = 0\<rparr> \<in> set stocks
         \<and> (\<forall>r \<in> set stocks. offer_id r = c \<longrightarrow> stock r = 0)"
proof -
  obtain K' where "create_stocks V K = (Inr stocks, K')"
    using assms(1) by (cases "create_stocks V K") simp
  from create_stocks_Inr [OF this] obtain st where
    r: "create_stocks_rows V K [] = (Inr st, K')"
    and s: "stocks = st @ map (\<lambda>i. \<lparr>offer_id = i, stock = 0\<rparr>) K'" by blast
  from create_stocks_rows_unmatched [OF r assms(3)] assms(2)
  have k: "c \<in> set K'" and n: "\<forall>r \<in> set st. offer_id r \<noteq> c" by auto
  from k s have "\<lparr>offer_id = c, stock = 0\<rparr> \<in> set stocks" by simp
  moreover from n s have "\<forall>r \<in> set stocks. offer_id r = c \<longrightarrow> stock r = 0" by auto
  ultimately show ?thesis by simp
qed

theorem create_stocks_zero_out_witness:
  "fst (create_stocks [\<lparr>Kod = PyStr ''A'', Kolichestvo = PyStr ''>10'', Tsena = PyNone\<rparr>]
         [''A'', ''B''])
     = Inr [\<lparr>offer_id = ''A'', stock = 100\<rparr>, \<lparr>offer_id = ''B'', stock = 0\<rparr>]
   \<and> ''B'' \<in> set [''A'', ''B'']
   \<and> ''B'' \<notin> (\<lambda>w. py_str (Kod w))
        ` set [\<lparr>Kod = PyStr ''A'', Kolichestvo = PyStr ''>10'', Tsena = PyNone\<rparr>]
   \<and> \<lparr>offer_id = ''B'', stock = 0\<rparr>
        \<in> set [\<lparr>offer_id = ''A'', stock = 100\<rparr>, \<lparr>offer_id = ''B'', stock = 0\<rparr>]"
proof -
  let ?V = "[\<lparr>Kod = PyStr ''A'', Kolichestvo = PyStr ''>10'', Tsena = PyNone\<rparr>]"
  let ?S = "[\<lparr>offer_id = ''A'', stock = 100\<rparr>, \<lparr>offer_id = ''B'', stock = 0\<rparr>]"
  have s: "fst (create_stocks ?V [''A'', ''B'']) = Inr ?S"
    by (simp add: create_stocks_def)
  have k: "''B'' \<in> set [''A'', ''B'']" by simp
  have n: "''B'' \<notin> (\<lambda>w. py_str (Kod w)) ` set ?V" by simp
  from create_stocks_zero_out [OF s k n] s k n show ?thesis by blast
qed

section \<open>Price records\<close>

lemma create_prices_rows_ids:
  "create_prices_rows V K acc = Inr ps \<Longrightarrow>
   map price_offer_id ps
     = map price_offer_id acc @ filter (\<lambda>c. c \<in> set K) (map (\<lambda>w. py_str (Kod w)) V)"
proof (induction V arbitrary: acc)
  case Nil
  then show ?case by simp
next
  case (Cons w ws)
  show ?case
  proof (cases "py_str (Kod w) \<in> set K")
    case False
    with Cons show ?thesis by simp
  next
    case True
    with Cons.prems obtain p where
      "create_prices_rows ws K
         (acc @ [\<lparr>auto_action_enabled = ''UNKNOWN'', currency_code = ''RUB'',
                  price_offer_id = py_str (Kod w), old_price = ''0'', price = p\<rparr>]) = Inr ps"
      by (auto split: sum.splits)
    from Cons.IH [OF this] True show ?thesis by simp
  qed
qed

lemma create_prices_rows_prices:
  "create_prices_rows V K acc = Inr ps \<Longrightarrow>
   map (\<lambda>p. Inr (price p)) ps
     = map (\<lambda>p. Inr (price p)) acc
       @ map (\<lambda>w. price_conversion (Tsena w)) (filter (\<lambda>w. py_str (Kod w) \<in> set K) V)"
proof (induction V arbitrary: acc)
  case Nil
  then show ?case by simp
next
  case (Cons w ws)
  show ?case
  proof (cases "py_str (Kod w) \<in> set K")
    case False
    with Cons show ?thesis by simp
  next
    case True
    with Cons.prems obtain p where c: "price_conversion (Tsena w) = Inr p" and
      "create_prices_rows ws K
         (acc @ [\<lparr>auto_action_enabled = ''UNKNOWN'', currency_code = ''RUB'',
                  price_offer_id = py_str (Kod w), old_price = ''0'', price = p\<rparr>]) = Inr ps"
      by (auto split: sum.splits)
    from Cons.IH [OF this(2)] True c show ?thesis by simp
  qed
qed

lemma create_prices_rows_error:
  "create_prices_rows V K acc = Inl e \<Longrightarrow>
   \<exists>w \<in> set V. py_str (Kod w) \<in> set K \<and> price_conversion (Tsena w) = Inl e"
proof (induction V arbitrary: acc)
  case Nil
  then show ?case by simp
next
  case (Cons w ws)
  then show ?case
    by (cases "py_str (Kod w) \<in> set K"; cases "price_conversion (Tsena w)") auto
qed

lemma count_list_filter:
  "count_list (filter P xs) c = (if P c then count_list xs c else 0)"
  by (induction xs) auto

text \<open>
  Claim C6. When \<open>create_prices V K\<close> returns, the offer ids of its records are the codes
  of the rows of \<open>V\<close> that are in \<open>K\<close>, one record per such row and in feed order, each with
  the converted price of its row; so no record has an id outside \<open>K\<close>, and a code of \<open>K\<close>
  has as many records as \<open>V\<close> has rows with it (nothing is deduplicated). It raises only
  when \<open>price_conversion\<close> raises on the price of such a row.
\<close>

theorem create_prices_feed_driven:
  "case create_prices V K of
     Inr prices \<Rightarrow>
       map price_offer_id prices
         = filter (\<lambda>c. c \<in> set K) (map (\<lambda>w. py_str (Kod w)) V)
       \<and> map (\<lambda>p. Inr (price p)) prices
         = map (\<lambda>w. price_conversion (Tsena w)) (filter (\<lambda>w. py_str (Kod w) \<in> set K) V)
       \<and> set (map price_offer_id prices) \<subseteq> set K
       \<and> count_list (map price_offer_id prices) c
         = (if c \<in> set K then count_list (map (\<lambda>w. py_str (Kod w)) V) c else 0)
   | Inl e \<Rightarrow>
       \<exists>w \<in> set V. py_str (Kod w) \<in> set K \<and> price_conversion (Tsena w) = Inl e"
proof (cases "create_prices V K")
  case (Inl e)
  then show ?thesis using create_prices_rows_error [of V K "[]" e]
    by (simp add: create_prices_def)
next
  case (Inr ps)
  then have r: "create_prices_rows V K [] = Inr ps" by (simp add: create_prices_def)
  have a: "map price_offer_id ps = filter (\<lambda>c. c \<in> set K) (map (\<lambda>w. py_str (Kod w)) V)"
    using create_prices_rows_ids [OF r] by simp
  have b: "map (\<lambda>p. Inr (price p)) ps
        = map (\<lambda>w. price_conversion (Tsena w)) (filter (\<lambda>w. py_str (Kod w) \<in> set K) V)"
    using create_prices_rows_prices [OF r] by simp
  have c: "set (map price_offer_id ps) \<subseteq> set K" unfolding a by auto
  have d: "count_list (map price_offer_id ps) c
        = (if c \<in> set K then count_list (map (\<lambda>w. py_str (Kod w)) V) c else 0)"
    unfolding a by (rule count_list_filter)
  from a b c d Inr show ?thesis by simp
qed

theorem create_prices_feed_driven_witness:
  "(case create_prices
          [\<lparr>Kod = PyStr ''A'', Kolichestvo = PyInt 3, Tsena = PyStr ''10.50''\<rparr>,
           \<lparr>Kod = PyStr ''Z'', Kolichestvo = PyInt 1, Tsena = PyNone\<rparr>,
           \<lparr>Kod = PyStr ''A'', Kolichestvo = PyInt 4, Tsena = PyStr ''12.00''\<rparr>]
          [''A'', ''B''] of
      Inr prices \<Rightarrow>
        map price_offer_id prices = [''A'', ''A''] \<and> map price prices = [''10'', ''12'']
        \<and> count_list (map price_offer_id prices) ''A'' = 2
    | Inl e \<Rightarrow> False)"
  using create_prices_feed_driven
    [of "[\<lparr>Kod = PyStr ''A'', Kolichestvo = PyInt 3, Tsena = PyStr ''10.50''\<rparr>,
          \<lparr>Kod = PyStr ''Z'', Kolichestvo = PyInt 1, Tsena = PyNone\<rparr>,
          \<lparr>Kod = PyStr ''A'', Kolichestvo = PyInt 4, Tsena = PyStr ''12.00''\<rparr>]"
        "[''A'', ''B'']" "''A''"]
  by (simp add: create_prices_def first_item_def sub_non_digits_def is_digit_def)

section \<open>The end-to-end scenario\<close>

text \<open>
  Claim C9. With the known ids \<open>A\<close>, \<open>B\<close>, \<open>C\<close> and the two vendor rows of the
  specification, \<open>create_stocks\<close> returns the stocks 100, 0 and 0 for \<open>A\<close>, \<open>B\<close> and
  \<open>C\<close>, and \<open>create_prices\<close>, on the same known ids, returns the prices \<open>999\<close> for \<open>A\<close>
  and \<open>5000\<close> for \<open>B\<close>, in that order.
\<close>

theorem reconciliation_scenario:
  "fst (create_stocks
     [\<lparr>Kod = PyStr ''A'', Kolichestvo = PyStr ''>10'', Tsena = PyStr ''999.00''\<rparr>,
      \<lparr>Kod = PyStr ''B'', Kolichestvo = PyStr ''1'', Tsena = PyStr ''5'000.00''\<rparr>]
     [''A'', ''B'', ''C''])
   = Inr [\<lparr>offer_id = ''A'', stock = 100\<rparr>, \<lparr>offer_id = ''B'', stock = 0\<rparr>,
          \<lparr>offer_id = ''C'', stock = 0\<rparr>]
   \<and> create_prices
     [\<lparr>Kod = PyStr ''A'', Kolichestvo = PyStr ''>10'', Tsena = PyStr ''999.00''\<rparr>,
      \<lparr>Kod = PyStr ''B'', Kolichestvo = PyStr ''1'', Tsena = PyStr ''5'000.00''\<rparr>]
     [''A'', ''B'', ''C'']
   = Inr [\<lparr>auto_action_enabled = ''UNKNOWN'', currency_code = ''RUB'',
           price_offer_id = ''A'', old_price = ''0'', price = ''999''\<rparr>,
          \<lparr>auto_action_enabled = ''UNKNOWN'', currency_code = ''RUB'',
           price_offer_id = ''B'', old_price = ''0'', price = ''5000''\<rparr>]"
  by (simp add: create_stocks_def create_prices_def first_item_def sub_non_digits_def is_digit_def)

section \<open>The shared list of main\<close>

text \<open>
  Claim C1 says that \<open>create_stocks\<close> leaves the known ids unchanged, so that
  \<open>create_prices\<close> after it gives what it gives on the original list. The code does
  otherwise. On one vendor row with the known code \<open>A\<close>: \<open>create_stocks\<close> leaves the list
  empty; \<open>create_prices\<close> on the original list returns the price record of \<open>A\<close>, and on
  the list that \<open>create_stocks\<close> left, as \<^verbatim>\<open>main\<close> calls it, returns no record.
\<close>

theorem main_prices_after_stocks:
  "create_stocks [\<lparr>Kod = PyStr ''A'', Kolichestvo = PyStr ''5'', Tsena = PyStr ''100.00''\<rparr>] [''A'']
     = (Inr [\<lparr>offer_id = ''A'', stock = 5\<rparr>], [])
   \<and> create_prices [\<lparr>Kod = PyStr ''A'', Kolichestvo = PyStr ''5'', Tsena = PyStr ''100.00''\<rparr>] [''A'']
     = Inr [\<lparr>auto_action_enabled = ''UNKNOWN'', currency_code = ''RUB'',
             price_offer_id = ''A'', old_price = ''0'', price = ''100''\<rparr>]
   \<and> create_prices [\<lparr>Kod = PyStr ''A'', Kolichestvo = PyStr ''5'', Tsena = PyStr ''100.00''\<rparr>]
       (snd (create_stocks
          [\<lparr>Kod = PyStr ''A'', Kolichestvo = PyStr ''5'', Tsena = PyStr ''100.00''\<rparr>] [''A'']))
     = Inr []
   \<and> main_records [\<lparr>Kod = PyStr ''A'', Kolichestvo = PyStr ''5'', Tsena = PyStr ''100.00''\<rparr>] [''A'']
     = Inr ([\<lparr>offer_id = ''A'', stock = 5\<rparr>], [])"
proof -
  have i: "py_int (PyStr ''5'') = Inr 5"
    by (simp add: int_of_str_def transform_decimal_and_space_def long_from_string_def
          digits_part_def is_space_def is_digit_def digit_val_def max_str_digits_def)
  have s: "create_stocks [\<lparr>Kod = PyStr ''A'', Kolichestvo = PyStr ''5'', Tsena = PyStr ''100.00''\<rparr>] [''A'']
     = (Inr [\<lparr>offer_id = ''A'', stock = 5\<rparr>], [])"
    by (simp add: create_stocks_def i del: py_int.simps)
  have p: "create_prices [\<lparr>Kod = PyStr ''A'', Kolichestvo = PyStr ''5'', Tsena = PyStr ''100.00''\<rparr>] [''A'']
     = Inr [\<lparr>auto_action_enabled = ''UNKNOWN'', currency_code = ''RUB'',
             price_offer_id = ''A'', old_price = ''0'', price = ''100''\<rparr>]"
    by (simp add: create_prices_def first_item_def sub_non_digits_def is_digit_def)
  have q: "create_prices [\<lparr>Kod = PyStr ''A'', Kolichestvo = PyStr ''5'', Tsena = PyStr ''100.00''\<rparr>] []
     = Inr []"
    by (simp add: create_prices_def)
  show ?thesis by (simp add: s p q main_records_def)
qed

text \<open>
  With duplicate-free known ids the run of \<^verbatim>\<open>main\<close> never builds a price record: every
  code of the feed that was a known id has been removed before \<open>create_prices\<close> looks
  for it.
\<close>

lemma create_stocks_rows_subset:
  "create_stocks_rows V K acc = (r, K') \<Longrightarrow> set K' \<subseteq> set K"
proof (induction V arbitrary: K acc)
  case Nil
  then show ?case by simp
next
  case (Cons w ws)
  show ?case
  proof (cases "py_str (Kod w) \<in> set K")
    case False
    with Cons show ?thesis by simp
  next
    case True
    let ?q = "if py_str (Kolichestvo w) = ''>10'' then Inr 100
              else if py_str (Kolichestvo w) = ''1'' then Inr 0
              else py_int (Kolichestvo w)"
    show ?thesis
    proof (cases ?q)
      case (Inl e)
      with True Cons.prems show ?thesis by (simp add: Let_def)
    next
      case (Inr n)
      with True Cons.prems have
        "create_stocks_rows ws (remove1 (py_str (Kod w)) K)
           (acc @ [\<lparr>offer_id = py_str (Kod w), stock = n\<rparr>]) = (r, K')"
        by (simp add: Let_def)
      from Cons.IH [OF this] set_remove1_subset [of "py_str (Kod w)" K]
      show ?thesis by blast
    qed
  qed
qed

lemma create_stocks_rows_consumes:
  "create_stocks_rows V K acc = (Inr st, K') \<Longrightarrow> distinct K \<Longrightarrow>
   \<forall>w \<in> set V. py_str (Kod w) \<notin> set K'"
proof (induction V arbitrary: K acc)
  case Nil
  then show ?case by simp
next
  case (Cons w ws)
  show ?case
  proof (cases "py_str (Kod w) \<in> set K")
    case False
    with Cons.prems have r: "create_stocks_rows ws K acc = (Inr st, K')" by simp
    from create_stocks_rows_subset [OF r] False have "py_str (Kod w) \<notin> set K'" by blast
    with Cons.IH [OF r Cons.prems(2)] show ?thesis by simp
  next
    case True
    with Cons.prems(1) obtain n where
      r: "create_stocks_rows ws (remove1 (py_str (Kod w)) K)
            (acc @ [\<lparr>offer_id = py_str (Kod w), stock = n\<rparr>]) = (Inr st, K')"
      by (auto simp: Let_def split: sum.splits)
    from Cons.prems(2) have d: "distinct (remove1 (py_str (Kod w)) K)" by simp
    from Cons.prems(2) have "py_str (Kod w) \<notin> set (remove1 (py_str (Kod w)) K)" by simp
    with create_stocks_rows_subset [OF r] have "py_str (Kod w) \<notin> set K'" by blast
    with Cons.IH [OF r d] show ?thesis by simp
  qed
qed

lemma create_prices_rows_none:
  "\<forall>w \<in> set V. py_str (Kod w) \<notin> set K \<Longrightarrow> create_prices_rows V K acc = Inr acc"
  by (induction V) auto

lemma main_records_no_prices:
  assumes "distinct K" and "main_records V K = Inr (stocks, prices)"
  shows "prices = []"
proof -
  from assms(2) obtain K' where c: "create_stocks V K = (Inr stocks, K')"
    and p: "create_prices V K' = Inr prices"
    by (auto simp: main_records_def split: prod.splits sum.splits)
  from c obtain st where r: "create_stocks_rows V K [] = (Inr st, K')"
    by (auto simp: create_stocks_def split: prod.splits sum.splits)
  from create_stocks_rows_consumes [OF r assms(1)]
  have "create_prices V K' = Inr []"
    by (simp add: create_prices_def create_prices_rows_none)
  with p show ?thesis by simp
qed

section \<open>Paging through the listing\<close>

lemma loop_reaches:
  "\<forall>j. i \<le> j \<and> j < i + d \<longrightarrow> \<not> reached pages j \<Longrightarrow> reached pages (i + d) \<Longrightarrow>
   get_offer_ids_loop (\<lambda>k. Inr (pages k)) i cur (concat (map (\<lambda>j. items (pages j)) [0..<i]))
     = Some (Inr (accumulated pages (i + d)))"
proof (induction d arbitrary: i cur)
  case 0
  then show ?case
    by (subst get_offer_ids_loop.simps) (simp add: reached_def accumulated_def Let_def)
next
  case (Suc d)
  have n: "\<not> reached pages i" using Suc.prems(1) by simp
  have a: "\<forall>j. Suc i \<le> j \<and> j < Suc i + d \<longrightarrow> \<not> reached pages j" using Suc.prems(1) by simp
  have b: "reached pages (Suc i + d)" using Suc.prems(2) by simp
  have "get_offer_ids_loop (\<lambda>k. Inr (pages k)) i cur (concat (map (\<lambda>j. items (pages j)) [0..<i]))
      = get_offer_ids_loop (\<lambda>k. Inr (pages k)) (Suc i) (last_id (pages i))
          (concat (map (\<lambda>j. items (pages j)) [0..<Suc i]))"
    using n by (subst get_offer_ids_loop.simps) (simp add: reached_def accumulated_def Let_def)
  also have "\<dots> = Some (Inr (accumulated pages (Suc i + d)))"
    by (rule Suc.IH [OF a b])
  finally show ?case by simp
qed

lemma loop_returns_reached:
  "get_offer_ids_loop R i cur pl = Some y \<Longrightarrow>
   R = (\<lambda>k. Inr (pages k)) \<longrightarrow> pl = concat (map (\<lambda>j. items (pages j)) [0..<i]) \<longrightarrow>
   (\<exists>j\<ge>i. reached pages j)"
proof (induct rule: get_offer_ids_loop.raw_induct [rotated 1, consumes 1])
  case (1 loop R i cur pl y)
  show ?case
  proof (intro impI)
    assume R: "R = (\<lambda>k. Inr (pages k))"
      and pl: "pl = concat (map (\<lambda>j. items (pages j)) [0..<i])"
    show "\<exists>j\<ge>i. reached pages j"
    proof (cases "reached pages i")
      case True
      then show ?thesis by blast
    next
      case False
      with 1(2) R pl have
        "loop R (Suc i) (last_id (pages i)) (concat (map (\<lambda>j. items (pages j)) [0..<Suc i])) = Some y"
        by (simp add: reached_def accumulated_def Let_def)
      from 1(1) [OF this] R obtain j where "Suc i \<le> j" "reached pages j" by auto
      then show ?thesis by (auto intro: exI [of _ j])
    qed
  qed
qed

lemma loop_diverges:
  assumes "\<forall>j. \<not> reached pages j"
  shows "get_offer_ids_loop (\<lambda>k. Inr (pages k)) 0 [] [] = None"
proof (cases "get_offer_ids_loop (\<lambda>k. Inr (pages k)) 0 [] []")
  case None
  then show ?thesis .
next
  case (Some y)
  from loop_returns_reached [OF Some, of pages] assms show ?thesis by simp
qed

text \<open>
  Claim C10. When every reply is a page, \<open>get_offer_ids\<close> returns exactly when some
  reply reports a total equal to the number of products accumulated up to it; it then
  returns the offer ids accumulated up to the first such reply, in page order. When no
  reply ever does, the loop runs forever.
\<close>

theorem get_offer_ids_paging:
  "get_offer_ids (\<lambda>k. Inr (pages k))
     = (if \<exists>k. reached pages k
        then Some (Inr (map item_offer_id (accumulated pages (LEAST k. reached pages k))))
        else None)"
proof (cases "\<exists>k. reached pages k")
  case True
  let ?k = "LEAST k. reached pages k"
  from True have r: "reached pages (0 + ?k)" by (auto intro: LeastI)
  have n: "\<forall>j. 0 \<le> j \<and> j < 0 + ?k \<longrightarrow> \<not> reached pages j"
    using not_less_Least by auto
  from loop_reaches [OF n r, of "[]"] True show ?thesis
    by (simp add: get_offer_ids_def)
next
  case False
  then have "\<forall>j. \<not> reached pages j" by simp
  from loop_diverges [OF this] False show ?thesis by (simp add: get_offer_ids_def)
qed

theorem get_offer_ids_paging_witness:
  "get_offer_ids (\<lambda>k. Inr \<lparr>items = [\<lparr>item_offer_id = (if k = 0 then ''A'' else ''B'')\<rparr>],
                             total_n = 2, last_id = ''A''\<rparr>)
     = Some (Inr [''A'', ''B''])
   \<and> get_offer_ids (\<lambda>k. Inr \<lparr>items = [], total_n = 1, last_id = []\<rparr>) = None"
proof -
  let ?p = "\<lambda>k::nat. \<lparr>items = [\<lparr>item_offer_id = (if k = 0 then ''A'' else ''B'')\<rparr>],
                       total_n = 2, last_id = ''A''\<rparr>"
  let ?q = "\<lambda>k::nat. \<lparr>items = ([] :: product list), total_n = 1, last_id = []\<rparr>"
  have r0: "\<not> reached ?p 0" by (simp add: reached_def accumulated_def)
  have r1: "reached ?p 1" by (simp add: reached_def accumulated_def)
  have l: "(LEAST k. reached ?p k) = 1"
  proof (rule Least_equality)
    show "reached ?p 1" by (rule r1)
  next
    fix y assume "reached ?p y"
    with r0 have "y \<noteq> 0" by (cases y) auto
    then show "1 \<le> y" by simp
  qed
  have a: "accumulated ?p 1 = [\<lparr>item_offer_id = ''A''\<rparr>, \<lparr>item_offer_id = ''B''\<rparr>]"
    by (simp add: accumulated_def)
  have e: "\<exists>k. reached ?p k" using r1 by blast
  have one: "get_offer_ids (\<lambda>k. Inr (?p k)) = Some (Inr [''A'', ''B''])"
    using get_offer_ids_paging [of ?p] e l a by simp
  have "accumulated ?q k = []" for k by (induction k) (simp_all add: accumulated_def)
  then have nq: "\<not> (\<exists>k. reached ?q k)" by (simp add: reached_def)
  have two: "get_offer_ids (\<lambda>k. Inr (?q k)) = None"
    using get_offer_ids_paging [of ?q] nq by simp
  from one two show ?thesis by simp
qed

end
